theory Spec2Isabelle
  imports Complex_Main
begin

section \<open>useHistory: the bounded undo/redo hook (hooks/useHistory.js)\<close>

text \<open>
  The hook keeps three pieces of state: the array \<open>history\<close>, the number
  \<open>currentIndex\<close> and the ref \<open>isApplyingHistory\<close>. Its two arguments,
  \<open>initialState\<close> and \<open>maxHistorySize\<close>, are passed to the operations that read them.
  Every operation is modelled as running on the state of the latest render, one call
  after the other (the closures of \<open>useCallback\<close> are fresh at each call).

  \<open>JSON.stringify\<close> is a JavaScript built-in; the hook only compares two of its results,
  so the serialisation is the parameter \<open>stringify\<close>, into any type of serialisations.

  The index is a natural number: \<open>history\<close> is never empty and \<open>currentIndex\<close> always
  is one of its indices (lemma \<open>hook_inv_run\<close>), so no read \<open>history[currentIndex]\<close> is out of
  range and no \<open>length - 1\<close> is negative.
\<close>

record 'a hook =
  history :: "'a list"
  currentIndex :: nat
  isApplyingHistory :: bool

definition useHistory :: "'a \<Rightarrow> 'a hook" where
  "useHistory initialState =
     \<lparr>history = [initialState], currentIndex = 0, isApplyingHistory = False\<rparr>"

text \<open>The argument of \<open>setState\<close>: a value, or a function of the current state.\<close>

datatype 'a new_state = Value 'a | Updater "'a \<Rightarrow> 'a"

text \<open>The values the hook returns besides its functions.\<close>

definition state :: "'a hook \<Rightarrow> 'a" where
  "state h = history h ! currentIndex h"

definition canUndo :: "'a hook \<Rightarrow> bool" where
  "canUndo h \<longleftrightarrow> currentIndex h > 0"

definition canRedo :: "'a hook \<Rightarrow> bool" where
  "canRedo h \<longleftrightarrow> currentIndex h < length (history h) - 1"

definition historySize :: "'a hook \<Rightarrow> nat" where
  "historySize h = length (history h)"

text \<open>\<open>typeof newState === 'function' ? newState(newHistory[currentIndex]) : newState\<close>\<close>

definition actualNewState :: "'a new_state \<Rightarrow> 'a \<Rightarrow> 'a" where
  "actualNewState newState cur = (case newState of Updater f \<Rightarrow> f cur | Value v \<Rightarrow> v)"

text \<open>
  \<open>setState\<close>: the early return under the guard, the \<open>splice\<close> of the redo branch, the
  comparison of the two serialisations (\<open>return prevHistory\<close> when they are equal), the
  \<open>push\<close>, and the \<open>shift\<close> when the array is longer than \<open>maxHistorySize\<close>. Both
  branches of the size test set \<open>currentIndex\<close> to the last index.
\<close>

definition setState :: "('a \<Rightarrow> 's) \<Rightarrow> nat \<Rightarrow> 'a new_state \<Rightarrow> 'a hook \<Rightarrow> 'a hook" where
  "setState stringify maxHistorySize newState h =
     (if isApplyingHistory h then h
      else
        let prevHistory = history h;
            newHistory =
              (if currentIndex h < length prevHistory - 1
               then take (currentIndex h + 1) prevHistory else prevHistory);
            actual = actualNewState newState (newHistory ! currentIndex h)
        in if stringify (newHistory ! currentIndex h) = stringify actual then h
           else
             let pushed = newHistory @ [actual] in
             if length pushed > maxHistorySize
             then h\<lparr>history := tl pushed, currentIndex := length (tl pushed) - 1\<rparr>
             else h\<lparr>history := pushed, currentIndex := length pushed - 1\<rparr>)"

text \<open>
  \<open>undo\<close> and \<open>redo\<close> return their boolean and the new state of the hook. Each is the
  function of the latest render, called on the state of that render: its test reads the
  \<open>currentIndex\<close> and the \<open>history.length\<close> that render gave it.
\<close>

definition undo :: "'a hook \<Rightarrow> bool \<times> 'a hook" where
  "undo h =
     (if currentIndex h > 0
      then (True, h\<lparr>isApplyingHistory := True, currentIndex := currentIndex h - 1\<rparr>)
      else (False, h))"

definition redo :: "'a hook \<Rightarrow> bool \<times> 'a hook" where
  "redo h =
     (if currentIndex h < length (history h) - 1
      then (True, h\<lparr>isApplyingHistory := True, currentIndex := currentIndex h + 1\<rparr>)
      else (False, h))"

text \<open>
  A function of the hook is a closure of the render that made it. When \<open>redo\<close> is called
  again before the next render, in the handler that has just called \<open>undo\<close>, its test
  still reads the \<open>currentIndex\<close> and the \<open>history.length\<close> of that render, while its
  update \<open>setCurrentIndex(prev => prev + 1)\<close> acts on the pending state. \<open>redoIn rendered h\<close>
  is the \<open>redo\<close> of the render \<open>rendered\<close> called on the pending state \<open>h\<close>; \<open>redo h\<close>
  is \<open>redoIn h h\<close>.
\<close>

definition redoIn :: "'a hook \<Rightarrow> 'a hook \<Rightarrow> bool \<times> 'a hook" where
  "redoIn rendered h =
     (if currentIndex rendered < length (history rendered) - 1
      then (True, h\<lparr>isApplyingHistory := True, currentIndex := currentIndex h + 1\<rparr>)
      else (False, h))"

text \<open>The callback that \<open>undo\<close> and \<open>redo\<close> hand to \<open>setTimeout(..., 0)\<close>.\<close>

definition resetApplying :: "'a hook \<Rightarrow> 'a hook" where
  "resetApplying h = h\<lparr>isApplyingHistory := False\<rparr>"

definition clearHistory :: "'a \<Rightarrow> 'a hook \<Rightarrow> 'a hook" where
  "clearHistory initialState h = h\<lparr>history := [initialState], currentIndex := 0\<rparr>"

text \<open>
  A session of the hook: the calls of its four functions, and the firing of a pending
  timeout, in any order.
\<close>

datatype 'a hook_call = SetState "'a new_state" | Undo | Redo | ClearHistory | Timeout

fun call :: "('a \<Rightarrow> 's) \<Rightarrow> 'a \<Rightarrow> nat \<Rightarrow> 'a hook_call \<Rightarrow> 'a hook \<Rightarrow> 'a hook" where
  "call stringify init m (SetState n) h = setState stringify m n h"
| "call stringify init m Undo h = snd (undo h)"
| "call stringify init m Redo h = snd (redo h)"
| "call stringify init m ClearHistory h = clearHistory init h"
| "call stringify init m Timeout h = resetApplying h"

fun run :: "('a \<Rightarrow> 's) \<Rightarrow> 'a \<Rightarrow> nat \<Rightarrow> 'a hook \<Rightarrow> 'a hook_call list \<Rightarrow> 'a hook" where
  "run stringify init m h [] = h"
| "run stringify init m h (c # cs) = run stringify init m (call stringify init m c h) cs"

definition session :: "('a \<Rightarrow> 's) \<Rightarrow> 'a \<Rightarrow> nat \<Rightarrow> 'a hook_call list \<Rightarrow> 'a hook" where
  "session stringify init m cs = run stringify init m (useHistory init) cs"

text \<open>
  The invariant of the hook: the history is not empty, the index is one of its indices,
  and the history holds at most \<open>maxHistorySize\<close> entries, or one when the cap is zero.
\<close>

definition hook_inv :: "nat \<Rightarrow> 'a hook \<Rightarrow> bool" where
  "hook_inv m h \<longleftrightarrow>
     history h \<noteq> [] \<and> currentIndex h < length (history h) \<and> length (history h) \<le> max 1 m"


section \<open>TextNode: handles derived from the text (nodes/TextNode.jsx)\<close>

text \<open>
  Strings are lists of characters. \<open>toString\<close> is the decimal form that a template
  literal gives a non-negative integer (the handle offsets \<open>30 + index * 20\<close> and the node ids \<open>nodeIdCounter\<close>).
\<close>

fun toString :: "nat \<Rightarrow> string" where
  "toString n =
     (if n < 10 then [char_of (48 + n)]
      else toString (n div 10) @ [char_of (48 + n mod 10)])"

declare toString.simps [simp del]

text \<open>
  \<open>JSON.stringify\<close> on an object whose values are numbers: the members in the order of
  the object's keys, each key in double quotes (keys that need no escape). Such an
  object is the list of its keys and values in that order; two of them are deep-equal
  when they give every key the same value.
\<close>

definition quoted :: "string \<Rightarrow> string" where
  "quoted s = CHR 0x22 # s @ [CHR 0x22]"

fun members :: "(string \<times> nat) list \<Rightarrow> string" where
  "members [] = []"
| "members [(k, v)] = quoted k @ '':'' @ toString v"
| "members ((k, v) # kvs) = quoted k @ '':'' @ toString v @ '','' @ members kvs"

definition stringifyObject :: "(string \<times> nat) list \<Rightarrow> string" where
  "stringifyObject kvs = ''{'' @ members kvs @ ''}''"

definition deepEqual :: "(string \<times> nat) list \<Rightarrow> (string \<times> nat) list \<Rightarrow> bool" where
  "deepEqual a b \<longleftrightarrow> map_of a = map_of b"

text \<open>
  The regular expression \<open>/\{\{([^}]+)\}\}/g\<close>. \<open>matchHere\<close> matches it at the start of
  a string and returns the group \<open>match[1]\<close> and the text after the match: two opening
  braces, the longest run of characters other than a closing brace, which must not be
  empty, and two closing braces. A shorter run is no alternative, since the character
  after it would be one the class \<open>[^}]\<close> has just matched (lemma \<open>matchHere_iff\<close>).
  \<open>exec\<close> is \<open>regex.exec(text)\<close> from \<open>lastIndex\<close> on: the first position with a match,
  or \<open>null\<close>; its second result is the text from the new \<open>lastIndex\<close>.
\<close>

definition matchHere :: "string \<Rightarrow> (string \<times> string) option" where
  "matchHere s =
     (case s of
        c1 # c2 # r \<Rightarrow>
          if c1 = CHR ''{'' \<and> c2 = CHR ''{''
          then let name = takeWhile (\<lambda>c. c \<noteq> CHR ''}'') r;
                   after = dropWhile (\<lambda>c. c \<noteq> CHR ''}'') r
               in if name \<noteq> [] \<and> take 2 after = ''}}'' then Some (name, drop 2 after)
                  else None
          else None
      | _ \<Rightarrow> None)"

fun exec :: "string \<Rightarrow> (string \<times> string) option" where
  "exec [] = None"
| "exec (c # cs) = (case matchHere (c # cs) of Some m \<Rightarrow> Some m | None \<Rightarrow> exec cs)"

text \<open>
  \<open>String.prototype.trim\<close> on characters below 256: tab, line feed, vertical tab, form
  feed, carriage return, space and the no-break space.
\<close>

definition isWhiteSpace :: "char \<Rightarrow> bool" where
  "isWhiteSpace c \<longleftrightarrow>
     c \<in> {CHR 0x09, CHR 0x0A, CHR 0x0B, CHR 0x0C, CHR 0x0D, CHR 0x20, CHR 0xA0}"

definition trim :: "string \<Rightarrow> string" where
  "trim s = rev (dropWhile isWhiteSpace (rev (dropWhile isWhiteSpace s)))"

lemma matchHere_shorter:
  assumes "matchHere s = Some (name, rest)"
  shows "length rest < length s"
proof -
  from assms obtain r where s: "s = CHR ''{'' # CHR ''{'' # r"
    and rest: "rest = drop 2 (dropWhile (\<lambda>c. c \<noteq> CHR ''}'') r)"
    by (auto simp: matchHere_def Let_def split: list.splits if_splits)
  have "length (dropWhile (\<lambda>c. c \<noteq> CHR ''}'') r) \<le> length r"
    by (rule length_dropWhile_le)
  with s rest show ?thesis by simp
qed

lemma exec_shorter: "exec s = Some (name, rest) \<Longrightarrow> length rest < length s"
  by (induction s) (auto split: option.splits dest: matchHere_shorter)

text \<open>
  The \<open>while\<close> loop of \<open>variables\<close>: each match is trimmed and pushed when it is not empty
  and not yet in \<open>matches\<close>.
\<close>

function variablesLoop :: "string \<Rightarrow> string list \<Rightarrow> string list" where
  "variablesLoop s matches =
     (case exec s of
        None \<Rightarrow> matches
      | Some (m1, rest) \<Rightarrow>
          let varName = trim m1
          in variablesLoop rest
               (if varName \<noteq> [] \<and> varName \<notin> set matches then matches @ [varName]
                else matches))"
  by pat_completeness auto
termination
  by (relation "measure (\<lambda>(s, matches). length s)") (auto dest: exec_shorter)

declare variablesLoop.simps [simp del]

definition variables :: "string \<Rightarrow> string list" where
  "variables text = variablesLoop text []"

datatype side = Left | Right

record handle =
  handle_id :: string
  handle_type :: string
  handle_position :: side
  handle_color :: string
  handle_style_top :: "string option"

definition inputHandles :: "string list \<Rightarrow> handle list" where
  "inputHandles vars =
     map (\<lambda>(index, variable).
            \<lparr>handle_id = variable, handle_type = ''target'', handle_position = Left,
             handle_color = ''#3b82f6'',
             handle_style_top = Some (toString (30 + index * 20) @ ''%'')\<rparr>)
         (enumerate 0 vars)"

definition handles :: "string \<Rightarrow> handle list" where
  "handles text =
     inputHandles (variables text) @
     [\<lparr>handle_id = ''output'', handle_type = ''source'', handle_position = Right,
       handle_color = ''#3b82f6'', handle_style_top = None\<rparr>]"

subsection \<open>The reference definition of the derived handles\<close>

text \<open>
  The specification's rule, step by step: the occurrences of \<open>{{name}}\<close> from left to
  right, each inner name trimmed, the empty ones discarded, the first occurrence of each
  distinct name kept in order, and the id \<open>output\<close> last. An occurrence is a match of
  the pattern above, the only grammar of a reference there is.
\<close>

function occurrences :: "string \<Rightarrow> string list" where
  "occurrences s =
     (case exec s of None \<Rightarrow> [] | Some (name, rest) \<Rightarrow> name # occurrences rest)"
  by pat_completeness auto
termination
  by (relation "measure length") (auto dest: exec_shorter)

declare occurrences.simps [simp del]

fun firstSeen :: "'a list \<Rightarrow> 'a list" where
  "firstSeen [] = []"
| "firstSeen (x # xs) = x # firstSeen (filter (\<lambda>y. y \<noteq> x) xs)"

definition spec_handle_ids :: "string \<Rightarrow> string list" where
  "spec_handle_ids text =
     firstSeen (filter (\<lambda>name. name \<noteq> []) (map trim (occurrences text))) @ [''output'']"

section \<open>NodeEditor: the graph state and its handlers (components/NodeEditor.jsx)\<close>

text \<open>
  The state kept by the history hook is the object \<open>{nodes, edges, nodeIdCounter}\<close>. A
  node carries the fields the editor writes (\<open>id\<close>, \<open>type\<close>, \<open>position\<close>, \<open>data\<close>) and the
  two the rendering library adds to its own copy, \<open>selected\<close> and \<open>dragging\<close>; a field that
  may be absent is an option. Coordinates are real numbers; the counter is a natural
  number (the additions of the source are exact far beyond any session).
\<close>

datatype jsval = JString string | JNumber real

record position =
  pos_x :: real
  pos_y :: real

record node =
  node_id :: string
  node_type :: string
  node_position :: position
  node_data :: "(string \<times> jsval) list"
  node_selected :: "bool option"
  node_dragging :: "bool option"

record edge =
  edge_id :: string
  edge_source :: string
  edge_target :: string
  edge_sourceHandle :: "string option"
  edge_targetHandle :: "string option"
  edge_selected :: "bool option"

record graph_state =
  nodes :: "node list"
  edges :: "edge list"
  nodeIdCounter :: nat

definition initialNodes :: "node list" where
  "initialNodes =
     [\<lparr>node_id = ''1'', node_type = ''inputNode'',
       node_position = \<lparr>pos_x = 100, pos_y = 100\<rparr>,
       node_data = [(''label'', JString ''Input Node'')],
       node_selected = None, node_dragging = None\<rparr>,
      \<lparr>node_id = ''2'', node_type = ''textNode'',
       node_position = \<lparr>pos_x = 400, pos_y = 100\<rparr>,
       node_data = [(''text'', JString ''Hello {{input}}!'')],
       node_selected = None, node_dragging = None\<rparr>,
      \<lparr>node_id = ''3'', node_type = ''outputNode'',
       node_position = \<lparr>pos_x = 700, pos_y = 100\<rparr>,
       node_data = [(''label'', JString ''Output Node'')],
       node_selected = None, node_dragging = None\<rparr>]"

definition initialEdges :: "edge list" where
  "initialEdges =
     [\<lparr>edge_id = ''e1-2'', edge_source = ''1'', edge_target = ''2'',
       edge_sourceHandle = Some ''output'', edge_targetHandle = Some ''input'',
       edge_selected = None\<rparr>,
      \<lparr>edge_id = ''e2-3'', edge_source = ''2'', edge_target = ''3'',
       edge_sourceHandle = Some ''output'', edge_targetHandle = Some ''input'',
       edge_selected = None\<rparr>]"

definition initialState :: graph_state where
  "initialState = \<lparr>nodes = initialNodes, edges = initialEdges, nodeIdCounter = 4\<rparr>"

text \<open>
  The argument of \<open>updateEditorState\<close> is an object with some of the three keys;
  \<open>spread\<close> is \<open>{...prevState, ...updates}\<close>.
\<close>

record updates =
  upd_nodes :: "node list option"
  upd_edges :: "edge list option"
  upd_nodeIdCounter :: "nat option"

definition spread :: "graph_state \<Rightarrow> updates \<Rightarrow> graph_state" where
  "spread prevState u =
     \<lparr>nodes = (case upd_nodes u of Some ns \<Rightarrow> ns | None \<Rightarrow> nodes prevState),
      edges = (case upd_edges u of Some es \<Rightarrow> es | None \<Rightarrow> edges prevState),
      nodeIdCounter =
        (case upd_nodeIdCounter u of Some c \<Rightarrow> c | None \<Rightarrow> nodeIdCounter prevState)\<rparr>"

text \<open>
  The state of the component: the hook, the rendering library's copies of the nodes and
  edges (\<open>useNodesState\<close>, \<open>useEdgesState\<close>), the selected edge ids, the visibility of
  the help overlay, and the ref \<open>isSyncingState\<close>. The callbacks handed to
  \<open>setTimeout(..., 0)\<close> wait in \<open>timers\<close>, in the order they were set; \<open>toasts\<close> lists the
  messages given to \<open>showActionFeedback\<close>, whose other effects are on the page only.
\<close>

datatype timer = ResetApplying | SaveNodes | SaveEdges

record editor =
  hist :: "graph_state hook"
  reactFlowNodes :: "node list"
  reactFlowEdges :: "edge list"
  selectedEdges :: "string list"
  showKeyboardHelp :: bool
  isSyncingState :: bool
  timers :: "timer list"
  toasts :: "string list"

definition initialEditor :: editor where
  "initialEditor =
     \<lparr>hist = useHistory initialState, reactFlowNodes = initialNodes,
      reactFlowEdges = initialEdges, selectedEdges = [], showKeyboardHelp = False,
      isSyncingState = False, timers = [], toasts = []\<rparr>"

definition editorState :: "editor \<Rightarrow> graph_state" where
  "editorState ed = state (hist ed)"

text \<open>\<open>useHistory(initialState, 100)\<close>: the editor keeps 100 entries.\<close>

definition updateEditorState :: "(graph_state \<Rightarrow> 's) \<Rightarrow> updates \<Rightarrow> editor \<Rightarrow> editor" where
  "updateEditorState stringify u ed =
     ed\<lparr>hist := setState stringify 100 (Updater (\<lambda>prevState. spread prevState u)) (hist ed)\<rparr>"

text \<open>
  The hook's \<open>undo\<close> and \<open>redo\<close> as the editor calls them: on success the reset of the
  guard joins the pending timers.
\<close>

definition editorUndo :: "editor \<Rightarrow> bool \<times> editor" where
  "editorUndo ed =
     (let (success, h) = undo (hist ed)
      in (success, if success then ed\<lparr>hist := h, timers := timers ed @ [ResetApplying]\<rparr> else ed))"

definition editorRedo :: "editor \<Rightarrow> bool \<times> editor" where
  "editorRedo ed =
     (let (success, h) = redo (hist ed)
      in (success, if success then ed\<lparr>hist := h, timers := timers ed @ [ResetApplying]\<rparr> else ed))"

text \<open>
  \<open>onConnect\<close>: the new edge is the connection with the id
  \<open>e<source>-<target>-<Date.now()>\<close>; the clock is the argument \<open>now\<close>.
\<close>

record connection =
  conn_source :: string
  conn_target :: string
  conn_sourceHandle :: "string option"
  conn_targetHandle :: "string option"

definition newEdgeId :: "connection \<Rightarrow> nat \<Rightarrow> string" where
  "newEdgeId params now =
     ''e'' @ conn_source params @ ''-'' @ conn_target params @ ''-'' @ toString now"

definition onConnect :: "(graph_state \<Rightarrow> 's) \<Rightarrow> connection \<Rightarrow> nat \<Rightarrow> editor \<Rightarrow> editor" where
  "onConnect stringify params now ed =
     (let newEdge =
            \<lparr>edge_id = newEdgeId params now,
             edge_source = conn_source params, edge_target = conn_target params,
             edge_sourceHandle = conn_sourceHandle params,
             edge_targetHandle = conn_targetHandle params, edge_selected = None\<rparr>
      in updateEditorState stringify
           \<lparr>upd_nodes = None, upd_edges = Some (edges (editorState ed) @ [newEdge]),
            upd_nodeIdCounter = None\<rparr> ed)"

definition onSelectionChange :: "edge list option \<Rightarrow> editor \<Rightarrow> editor" where
  "onSelectionChange selectedEdgeElements ed =
     ed\<lparr>selectedEdges :=
          (case selectedEdgeElements of Some es \<Rightarrow> map edge_id es | None \<Rightarrow> [])\<rparr>"

definition deleteSelectedEdges :: "(graph_state \<Rightarrow> 's) \<Rightarrow> editor \<Rightarrow> editor" where
  "deleteSelectedEdges stringify ed =
     (if length (selectedEdges ed) > 0
      then (updateEditorState stringify
              \<lparr>upd_nodes = None,
               upd_edges =
                 Some (filter (\<lambda>e. edge_id e \<notin> set (selectedEdges ed)) (edges (editorState ed))),
               upd_nodeIdCounter = None\<rparr> ed)
           \<lparr>selectedEdges := []\<rparr>
      else ed)"

text \<open>
  \<open>deleteSelectedNodes\<close>: the ids are those of the library's nodes with a true
  \<open>selected\<close>. \<open>deleteSelectedNodesUpdates\<close> is the object it passes to
  \<open>updateEditorState\<close>, when it calls it.
\<close>

definition selectedNodeIds :: "editor \<Rightarrow> string list" where
  "selectedNodeIds ed =
     map node_id (filter (\<lambda>n. node_selected n = Some True) (reactFlowNodes ed))"

definition deleteSelectedNodesUpdates :: "editor \<Rightarrow> updates option" where
  "deleteSelectedNodesUpdates ed =
     (let selectedNodes = filter (\<lambda>n. node_selected n = Some True) (reactFlowNodes ed)
      in if length selectedNodes > 0
         then let selectedNodeIds = map node_id selectedNodes
              in Some \<lparr>upd_nodes =
                         Some (filter (\<lambda>n. node_id n \<notin> set selectedNodeIds)
                                 (nodes (editorState ed))),
                       upd_edges =
                         Some (filter (\<lambda>e. edge_source e \<notin> set selectedNodeIds \<and>
                                           edge_target e \<notin> set selectedNodeIds)
                                 (edges (editorState ed))),
                       upd_nodeIdCounter = None\<rparr>
         else None)"

definition deleteSelectedNodes :: "(graph_state \<Rightarrow> 's) \<Rightarrow> editor \<Rightarrow> editor" where
  "deleteSelectedNodes stringify ed =
     (case deleteSelectedNodesUpdates ed of
        Some u \<Rightarrow> updateEditorState stringify u ed
      | None \<Rightarrow> ed)"

definition clearSelection :: "editor \<Rightarrow> editor" where
  "clearSelection ed =
     ed\<lparr>selectedEdges := [],
        reactFlowNodes := map (\<lambda>n. n\<lparr>node_selected := Some False\<rparr>) (reactFlowNodes ed),
        reactFlowEdges := map (\<lambda>e. e\<lparr>edge_selected := Some False\<rparr>) (reactFlowEdges ed)\<rparr>"

definition showActionFeedback :: "string \<Rightarrow> editor \<Rightarrow> editor" where
  "showActionFeedback message ed = ed\<lparr>toasts := toasts ed @ [message]\<rparr>"

text \<open>
  The keyboard handler. An event is read through its \<open>key\<close>, its three modifier flags
  and the \<open>tagName\<close> and \<open>contentEditable\<close> of its target; \<open>preventDefault\<close> acts on the
  browser only.
\<close>

record key_event =
  key :: string
  ctrlKey :: bool
  metaKey :: bool
  shiftKey :: bool
  target_tagName :: string
  target_contentEditable :: string

definition plural :: "nat \<Rightarrow> string" where
  "plural n = (if n > 1 then ''s'' else [])"

definition isTyping :: "key_event \<Rightarrow> bool" where
  "isTyping event \<longleftrightarrow>
     target_tagName event = ''INPUT'' \<or> target_tagName event = ''TEXTAREA'' \<or>
     target_contentEditable event = ''true''"

definition isCtrlOrCmd :: "key_event \<Rightarrow> bool" where
  "isCtrlOrCmd event \<longleftrightarrow> ctrlKey event \<or> metaKey event"

definition onKeyDown :: "(graph_state \<Rightarrow> 's) \<Rightarrow> key_event \<Rightarrow> editor \<Rightarrow> editor" where
  "onKeyDown stringify event ed =
     (if isCtrlOrCmd event \<and> key event = ''z'' \<and> \<not> shiftKey event
      then let (success, ed') = editorUndo ed
           in if success then showActionFeedback ''Undo'' ed' else ed'
      else if isCtrlOrCmd event \<and>
              (key event = ''y'' \<or> (key event = ''z'' \<and> shiftKey event))
      then let (success, ed') = editorRedo ed
           in if success then showActionFeedback ''Redo'' ed' else ed'
      else if isTyping event then ed
      else if key event = ''?'' \<and> \<not> shiftKey event
      then ed\<lparr>showKeyboardHelp := \<not> showKeyboardHelp ed\<rparr>
      else if key event = ''Delete'' \<or> key event = ''Backspace''
      then if length (selectedEdges ed) > 0
           then showActionFeedback
                  (''Deleted '' @ toString (length (selectedEdges ed)) @ '' edge'' @
                   plural (length (selectedEdges ed)))
                  (deleteSelectedEdges stringify ed)
           else let selectedNodes =
                      filter (\<lambda>n. node_selected n = Some True) (reactFlowNodes ed)
                in if length selectedNodes > 0
                   then showActionFeedback
                          (''Deleted '' @ toString (length selectedNodes) @ '' node'' @
                           plural (length selectedNodes))
                          (deleteSelectedNodes stringify ed)
                   else ed
      else if key event = ''Escape''
      then if showKeyboardHelp ed then ed\<lparr>showKeyboardHelp := False\<rparr>
           else showActionFeedback ''Selection cleared'' (clearSelection ed)
      else ed)"

text \<open>
  \<open>addNode\<close>: \<open>position\<close> is the argument or, when it is \<open>null\<close>, made of two draws
  of \<open>Math.random()\<close>, here the arguments \<open>random1\<close> and \<open>random2\<close>.
\<close>

definition getDefaultNodeData :: "string \<Rightarrow> (string \<times> jsval) list" where
  "getDefaultNodeData type =
     (if type = ''inputNode'' then [(''label'', JString ''Input Node'')]
      else if type = ''outputNode'' then [(''label'', JString ''Output Node'')]
      else if type = ''llmNode''
      then [(''model'', JString ''gpt-3.5-turbo''), (''temperature'', JNumber 0.7)]
      else if type = ''textNode'' then [(''text'', JString ''Enter your text here...'')]
      else if type = ''filterNode''
      then [(''condition'', JString ''contains''), (''value'', JString [])]
      else if type = ''transformNode'' then [(''operation'', JString ''uppercase'')]
      else if type = ''aggregateNode'' then [(''operation'', JString ''sum'')]
      else if type = ''conditionalNode'' then [(''condition'', JString ''if-then-else'')]
      else if type = ''delayNode'' then [(''delay'', JNumber 1000)]
      else [])"

definition newNode :: "string \<Rightarrow> position option \<Rightarrow> real \<Rightarrow> real \<Rightarrow> editor \<Rightarrow> node" where
  "newNode type position random1 random2 ed =
     (let nodePosition =
            (case position of
               Some p \<Rightarrow> p
             | None \<Rightarrow> \<lparr>pos_x = random1 * 400 + 100, pos_y = random2 * 400 + 100\<rparr>)
      in \<lparr>node_id = toString (nodeIdCounter (editorState ed)), node_type = type,
          node_position = nodePosition, node_data = getDefaultNodeData type,
          node_selected = None, node_dragging = None\<rparr>)"

definition addNode ::
  "(graph_state \<Rightarrow> 's) \<Rightarrow> string \<Rightarrow> position option \<Rightarrow> real \<Rightarrow> real \<Rightarrow> editor \<Rightarrow> editor" where
  "addNode stringify type position random1 random2 ed =
     updateEditorState stringify
       \<lparr>upd_nodes = Some (nodes (editorState ed) @ [newNode type position random1 random2 ed]),
        upd_edges = None,
        upd_nodeIdCounter = Some (nodeIdCounter (editorState ed) + 1)\<rparr> ed"

text \<open>
  The change handlers. \<open>onNodesChange\<close> and \<open>onEdgesChange\<close> belong to the rendering
  library and are parameters: they give the library's new copy from the changes and the
  old copy. A change is read through its \<open>type\<close> and, for a position change, its
  \<open>dragging\<close> flag.
\<close>

record node_change =
  change_id :: string
  change_type :: string
  change_position :: "position option"
  change_dragging :: "bool option"

record edge_change =
  echange_id :: string
  echange_type :: string

definition hasPositionChange :: "node_change list \<Rightarrow> bool" where
  "hasPositionChange changes =
     list_ex (\<lambda>change. change_type change = ''position'' \<and> change_dragging change = Some False)
       changes"

definition handleNodesChange ::
  "(node_change list \<Rightarrow> node list \<Rightarrow> node list) \<Rightarrow> node_change list \<Rightarrow> editor \<Rightarrow> editor" where
  "handleNodesChange onNodesChange changes ed =
     (let ed1 = ed\<lparr>isSyncingState := True,
                   reactFlowNodes := onNodesChange changes (reactFlowNodes ed)\<rparr>
      in if hasPositionChange changes then ed1\<lparr>timers := timers ed1 @ [SaveNodes]\<rparr>
         else ed1\<lparr>isSyncingState := False\<rparr>)"

definition handleEdgesChange ::
  "(edge_change list \<Rightarrow> edge list \<Rightarrow> edge list) \<Rightarrow> edge_change list \<Rightarrow> editor \<Rightarrow> editor" where
  "handleEdgesChange onEdgesChange changes ed =
     (let ed1 = ed\<lparr>isSyncingState := True,
                   reactFlowEdges := onEdgesChange changes (reactFlowEdges ed)\<rparr>
      in if list_ex (\<lambda>change. echange_type change = ''remove'') changes
         then ed1\<lparr>timers := timers ed1 @ [SaveEdges]\<rparr>
         else ed1\<lparr>isSyncingState := False\<rparr>)"

text \<open>The two deferred callbacks: they save the library's copy and clear the ref.\<close>

definition saveNodes :: "(graph_state \<Rightarrow> 's) \<Rightarrow> editor \<Rightarrow> editor" where
  "saveNodes stringify ed =
     (updateEditorState stringify
        \<lparr>upd_nodes = Some (reactFlowNodes ed), upd_edges = None, upd_nodeIdCounter = None\<rparr> ed)
     \<lparr>isSyncingState := False\<rparr>"

definition saveEdges :: "(graph_state \<Rightarrow> 's) \<Rightarrow> editor \<Rightarrow> editor" where
  "saveEdges stringify ed =
     (updateEditorState stringify
        \<lparr>upd_nodes = None, upd_edges = Some (reactFlowEdges ed), upd_nodeIdCounter = None\<rparr> ed)
     \<lparr>isSyncingState := False\<rparr>"

definition fireTimer :: "(graph_state \<Rightarrow> 's) \<Rightarrow> editor \<Rightarrow> editor" where
  "fireTimer stringify ed =
     (case timers ed of
        [] \<Rightarrow> ed
      | t # ts \<Rightarrow>
          (case t of
             ResetApplying \<Rightarrow> ed\<lparr>timers := ts, hist := resetApplying (hist ed)\<rparr>
           | SaveNodes \<Rightarrow> saveNodes stringify (ed\<lparr>timers := ts\<rparr>)
           | SaveEdges \<Rightarrow> saveEdges stringify (ed\<lparr>timers := ts\<rparr>)))"

text \<open>
  The effect that follows a render in which \<open>nodes\<close> or \<open>edges\<close> changed: unless the ref
  is set, the library's copies are overwritten. \<open>before\<close> is the state of the previous
  render; the two dependencies are compared by their values.
\<close>

definition syncEffect :: "graph_state \<Rightarrow> editor \<Rightarrow> editor" where
  "syncEffect before ed =
     (if (nodes (editorState ed) \<noteq> nodes before \<or> edges (editorState ed) \<noteq> edges before) \<and>
         \<not> isSyncingState ed
      then ed\<lparr>reactFlowNodes := nodes (editorState ed),
              reactFlowEdges := edges (editorState ed)\<rparr>
      else ed)"

text \<open>
  The events of a session: what the user does, what the library reports, and the firing
  of the oldest pending timer. Each handler runs to its end, then the effect.
\<close>

datatype event =
    AddNode string "position option" real real
  | Connect connection nat
  | SelectionChange "edge list option"
  | KeyDown key_event
  | NodesChange "node_change list"
  | EdgesChange "edge_change list"
  | ClickUndo
  | ClickRedo
  | ClickClearHistory
  | ClickDeleteEdges
  | ClickHelp
  | CloseHelp
  | TimerFires

text \<open>The three functions a session takes from outside the repository.\<close>

record 's library =
  lib_stringify :: "graph_state \<Rightarrow> 's"
  lib_onNodesChange :: "node_change list \<Rightarrow> node list \<Rightarrow> node list"
  lib_onEdgesChange :: "edge_change list \<Rightarrow> edge list \<Rightarrow> edge list"

fun handler :: "'s library \<Rightarrow> event \<Rightarrow> editor \<Rightarrow> editor" where
  "handler lib (AddNode type position random1 random2) ed =
     addNode (lib_stringify lib) type position random1 random2 ed"
| "handler lib (Connect params now) ed = onConnect (lib_stringify lib) params now ed"
| "handler lib (SelectionChange sel) ed = onSelectionChange sel ed"
| "handler lib (KeyDown event) ed = onKeyDown (lib_stringify lib) event ed"
| "handler lib (NodesChange changes) ed = handleNodesChange (lib_onNodesChange lib) changes ed"
| "handler lib (EdgesChange changes) ed = handleEdgesChange (lib_onEdgesChange lib) changes ed"
| "handler lib ClickUndo ed = snd (editorUndo ed)"
| "handler lib ClickRedo ed = snd (editorRedo ed)"
| "handler lib ClickClearHistory ed = ed\<lparr>hist := clearHistory initialState (hist ed)\<rparr>"
| "handler lib ClickDeleteEdges ed = deleteSelectedEdges (lib_stringify lib) ed"
| "handler lib ClickHelp ed = ed\<lparr>showKeyboardHelp := True\<rparr>"
| "handler lib CloseHelp ed = ed\<lparr>showKeyboardHelp := False\<rparr>"
| "handler lib TimerFires ed = fireTimer (lib_stringify lib) ed"

definition dispatch :: "'s library \<Rightarrow> event \<Rightarrow> editor \<Rightarrow> editor" where
  "dispatch lib ev ed = syncEffect (editorState ed) (handler lib ev ed)"

fun runEvents :: "'s library \<Rightarrow> editor \<Rightarrow> event list \<Rightarrow> editor" where
  "runEvents lib ed [] = ed"
| "runEvents lib ed (ev # evs) = runEvents lib (dispatch lib ev ed) evs"

subsection \<open>Ids within a snapshot\<close>

text \<open>
  A snapshot has fresh ids when the ids of its nodes are pairwise distinct and each is
  the decimal form of a number below its \<open>nodeIdCounter\<close>.
\<close>

definition freshIds :: "graph_state \<Rightarrow> bool" where
  "freshIds g \<longleftrightarrow>
     distinct (map node_id (nodes g)) \<and>
     list_all (\<lambda>n. node_id n \<in> toString ` {..<nodeIdCounter g}) (nodes g)"

text \<open>The events other than a change of the library's nodes.\<close>

fun noNodesChange :: "event \<Rightarrow> bool" where
  "noNodesChange (NodesChange changes) = False"
| "noNodesChange ev = True"

text \<open>
  The invariant of the sessions without such a change: the invariant of the hook, fresh
  ids in every entry of the history, counters that never decrease along the history,
  and no pending save of the library's nodes.
\<close>

definition idsInv :: "editor \<Rightarrow> bool" where
  "idsInv ed \<longleftrightarrow>
     hook_inv 100 (hist ed) \<and> list_all freshIds (history (hist ed)) \<and>
     sorted (map nodeIdCounter (history (hist ed))) \<and> SaveNodes \<notin> set (timers ed)"

subsection \<open>A rendering library for the examples\<close>

text \<open>
  The examples below run on the identity as serialisation, so that two states have the
  same serialisation exactly when they are equal, and on the library's reducers as its
  documentation gives them: a position change sets the \<open>position\<close> and the \<open>dragging\<close>
  flag it carries on the node with its id, and a remove change takes the edge out.
\<close>

definition applyNodeChange :: "node_change \<Rightarrow> node \<Rightarrow> node" where
  "applyNodeChange change n =
     (if change_type change = ''position'' \<and> change_id change = node_id n
      then n\<lparr>node_position :=
                (case change_position change of Some p \<Rightarrow> p | None \<Rightarrow> node_position n),
              node_dragging :=
                (case change_dragging change of Some d \<Rightarrow> Some d | None \<Rightarrow> node_dragging n)\<rparr>
      else n)"

definition applyNodeChanges :: "node_change list \<Rightarrow> node list \<Rightarrow> node list" where
  "applyNodeChanges changes ns = foldl (\<lambda>ms change. map (applyNodeChange change) ms) ns changes"

definition applyEdgeChanges :: "edge_change list \<Rightarrow> edge list \<Rightarrow> edge list" where
  "applyEdgeChanges changes es =
     filter (\<lambda>e. \<not> list_ex (\<lambda>change. echange_type change = ''remove'' \<and>
                                   echange_id change = edge_id e) changes) es"

definition exampleLibrary :: "graph_state library" where
  "exampleLibrary =
     \<lparr>lib_stringify = (\<lambda>g. g), lib_onNodesChange = applyNodeChanges,
      lib_onEdgesChange = applyEdgeChanges\<rparr>"

subsection \<open>Concrete sessions\<close>

text \<open>
  The sessions used as examples: states are natural numbers and the serialisation is
  the identity, so two states have the same serialisation exactly when they are equal.
\<close>

definition afterUndo :: "nat hook" where
  "afterUndo = session (\<lambda>x. x) 0 50 [SetState (Value 1), Undo]"

definition undoSettled :: "nat hook" where
  "undoSettled = session (\<lambda>x. x) 0 50 [SetState (Value 1), Undo, Timeout]"

definition objectAB :: "(string \<times> nat) list" where
  "objectAB = [(''a'', 1), (''b'', 2)]"

definition objectBA :: "(string \<times> nat) list" where
  "objectBA = [(''b'', 2), (''a'', 1)]"

definition fullHistory :: "nat hook" where
  "fullHistory = session (\<lambda>x. x) 0 2 [SetState (Value 1)]"

text \<open>
  A graph with the nodes A, B, C, D and the edges from A to C, from B to D and from C to
  D, in which the library shows A and B as selected; a connection from node 1 to node 2;
  and the key \<open>?\<close> pressed on the page, without and with the shift key.
\<close>

definition plainNode :: "string \<Rightarrow> bool option \<Rightarrow> node" where
  "plainNode i sel =
     \<lparr>node_id = i, node_type = ''textNode'', node_position = \<lparr>pos_x = 0, pos_y = 0\<rparr>,
      node_data = [], node_selected = sel, node_dragging = None\<rparr>"

definition plainEdge :: "string \<Rightarrow> string \<Rightarrow> string \<Rightarrow> edge" where
  "plainEdge i s t =
     \<lparr>edge_id = i, edge_source = s, edge_target = t, edge_sourceHandle = Some ''output'',
      edge_targetHandle = Some ''input'', edge_selected = None\<rparr>"

definition abcdState :: graph_state where
  "abcdState =
     \<lparr>nodes = [plainNode ''A'' None, plainNode ''B'' None, plainNode ''C'' None,
              plainNode ''D'' None],
      edges = [plainEdge ''eA-C'' ''A'' ''C'', plainEdge ''eB-D'' ''B'' ''D'',
               plainEdge ''eC-D'' ''C'' ''D''],
      nodeIdCounter = 5\<rparr>"

definition abcdEditor :: editor where
  "abcdEditor =
     \<lparr>hist = useHistory abcdState,
      reactFlowNodes = [plainNode ''A'' (Some True), plainNode ''B'' (Some True),
                        plainNode ''C'' (Some False), plainNode ''D'' None],
      reactFlowEdges = edges abcdState, selectedEdges = [], showKeyboardHelp = False,
      isSyncingState = False, timers = [], toasts = []\<rparr>"

text \<open>
  The same editor after a connection from A to D and its undo, before the timeout has
  cleared the guard; the library's copy still shows A and B as selected.
\<close>

definition connectionAD :: connection where
  "connectionAD =
     \<lparr>conn_source = ''A'', conn_target = ''D'', conn_sourceHandle = Some ''output'',
      conn_targetHandle = Some ''input''\<rparr>"

definition abcdUndone :: editor where
  "abcdUndone = snd (editorUndo (onConnect (\<lambda>g. g) connectionAD 1700000000000 abcdEditor))"

definition connection12 :: connection where
  "connection12 =
     \<lparr>conn_source = ''1'', conn_target = ''2'', conn_sourceHandle = Some ''output'',
      conn_targetHandle = Some ''input''\<rparr>"

definition edge12 :: edge where
  "edge12 =
     \<lparr>edge_id = ''e1-2-1700000000000'', edge_source = ''1'', edge_target = ''2'',
      edge_sourceHandle = Some ''output'', edge_targetHandle = Some ''input'',
      edge_selected = None\<rparr>"

text \<open>
  Two additions of a node, and the sessions that add a node, undo the addition, let the
  timeout clear the guard, and add another node.
\<close>

definition addTextNode :: event where
  "addTextNode = AddNode ''textNode'' (Some \<lparr>pos_x = 250, pos_y = 300\<rparr>) 0 0"

definition addLLMNode :: event where
  "addLLMNode = AddNode ''llmNode'' None (1 / 4) (1 / 2)"

definition afterAdd :: editor where
  "afterAdd = runEvents exampleLibrary initialEditor [addTextNode]"

definition afterAddUndo :: editor where
  "afterAddUndo = runEvents exampleLibrary initialEditor [addTextNode, ClickUndo, TimerFires]"

definition afterReAdd :: editor where
  "afterReAdd =
     runEvents exampleLibrary initialEditor [addTextNode, ClickUndo, TimerFires, addLLMNode]"

definition questionMark :: key_event where
  "questionMark =
     \<lparr>key = ''?'', ctrlKey = False, metaKey = False, shiftKey = False,
      target_tagName = ''BODY'', target_contentEditable = ''inherit''\<rparr>"

definition shiftQuestionMark :: key_event where
  "shiftQuestionMark = questionMark\<lparr>shiftKey := True\<rparr>"

text \<open>
  A drag as the library reports it: frames that move a node with \<open>dragging\<close> true, then
  the release with \<open>dragging\<close> false. The first gesture takes node 1 to (150, 120); the
  second one takes it away and back to the same place.
\<close>

definition moveChange :: "string \<Rightarrow> real \<Rightarrow> real \<Rightarrow> node_change" where
  "moveChange i x y =
     \<lparr>change_id = i, change_type = ''position'',
      change_position = Some \<lparr>pos_x = x, pos_y = y\<rparr>, change_dragging = Some True\<rparr>"

definition stopChange :: "string \<Rightarrow> node_change" where
  "stopChange i =
     \<lparr>change_id = i, change_type = ''position'', change_position = None,
      change_dragging = Some False\<rparr>"

definition firstDragFrames :: "node_change list list" where
  "firstDragFrames = [[moveChange ''1'' 120 110], [moveChange ''1'' 150 120]]"

definition secondDragFrames :: "node_change list list" where
  "secondDragFrames = [[moveChange ''1'' 200 200], [moveChange ''1'' 150 120]]"

definition draggedNodes :: "node list" where
  "draggedNodes =
     [\<lparr>node_id = ''1'', node_type = ''inputNode'',
       node_position = \<lparr>pos_x = 150, pos_y = 120\<rparr>,
       node_data = [(''label'', JString ''Input Node'')],
       node_selected = None, node_dragging = Some False\<rparr>,
      \<lparr>node_id = ''2'', node_type = ''textNode'',
       node_position = \<lparr>pos_x = 400, pos_y = 100\<rparr>,
       node_data = [(''text'', JString ''Hello {{input}}!'')],
       node_selected = None, node_dragging = None\<rparr>,
      \<lparr>node_id = ''3'', node_type = ''outputNode'',
       node_position = \<lparr>pos_x = 700, pos_y = 100\<rparr>,
       node_data = [(''label'', JString ''Output Node'')],
       node_selected = None, node_dragging = None\<rparr>]"

definition afterFirstDrag :: editor where
  "afterFirstDrag =
     runEvents exampleLibrary initialEditor
       (map NodesChange firstDragFrames @ [NodesChange [stopChange ''1''], TimerFires])"

definition afterSecondDrag :: editor where
  "afterSecondDrag =
     runEvents exampleLibrary afterFirstDrag
       (map NodesChange secondDragFrames @ [NodesChange [stopChange ''1''], TimerFires])"

section \<open>The invariant of the hook holds in every session\<close>

lemma hook_inv_useHistory: "hook_inv m (useHistory init)"
  by (simp add: hook_inv_def useHistory_def)

lemma hook_inv_setState:
  assumes "hook_inv m h"
  shows "hook_inv m (setState stringify m n h)"
proof -
  from assms have ne: "history h \<noteq> []" and idx: "currentIndex h < length (history h)"
    and cap: "length (history h) \<le> max 1 m"
    by (simp_all add: hook_inv_def)
  show ?thesis
  proof (cases "currentIndex h < length (history h) - 1")
    case True
    with idx cap show ?thesis
      by (auto simp: hook_inv_def setState_def Let_def min_def)
  next
    case False
    with idx have "currentIndex h = length (history h) - 1" by simp
    with ne idx cap False show ?thesis
      by (auto simp: hook_inv_def setState_def Let_def)
  qed
qed

lemma hook_inv_undo: "hook_inv m h \<Longrightarrow> hook_inv m (snd (undo h))"
  by (auto simp: hook_inv_def undo_def)

lemma hook_inv_redo: "hook_inv m h \<Longrightarrow> hook_inv m (snd (redo h))"
  by (auto simp: hook_inv_def redo_def)

lemma hook_inv_clearHistory: "hook_inv m (clearHistory init h)"
  by (simp add: hook_inv_def clearHistory_def)

lemma hook_inv_resetApplying: "hook_inv m h \<Longrightarrow> hook_inv m (resetApplying h)"
  by (simp add: hook_inv_def resetApplying_def)

lemma hook_inv_call: "hook_inv m h \<Longrightarrow> hook_inv m (call stringify init m c h)"
  by (cases c) (simp_all add: hook_inv_setState hook_inv_undo hook_inv_redo hook_inv_clearHistory hook_inv_resetApplying)

lemma hook_inv_run: "hook_inv m h \<Longrightarrow> hook_inv m (run stringify init m h cs)"
  by (induction cs arbitrary: h) (simp_all add: hook_inv_call)

lemma hook_inv_session: "hook_inv m (session stringify init m cs)"
  by (simp add: session_def hook_inv_run hook_inv_useHistory)

text \<open>
  With the guard clear, \<open>setState\<close> makes the candidate the current state whenever the
  serialisation tells the candidate from the current state; and what it gives when it
  appends, at the last index and below it.
\<close>

lemma setState_changes:
  assumes "hook_inv m h" and "\<not> isApplyingHistory h"
    and "stringify (state h) \<noteq> stringify (actualNewState n (state h))"
  shows "state (setState stringify m n h) = actualNewState n (state h)"
proof -
  from assms(1) have ne: "history h \<noteq> []" and idx: "currentIndex h < length (history h)"
    by (simp_all add: hook_inv_def)
  have cur: "(if currentIndex h < length (history h) - 1
         then take (currentIndex h + 1) (history h) else history h) ! currentIndex h = state h"
    by (simp add: state_def)
  define nh where "nh = (if currentIndex h < length (history h) - 1
         then take (currentIndex h + 1) (history h) else history h)"
  from ne idx have nne: "nh \<noteq> []" by (auto simp: nh_def)
  from cur have cur': "nh ! currentIndex h = state h" by (simp add: nh_def)
  have a: "(nh @ [v]) ! (length (nh @ [v]) - Suc 0) = v" for v by simp
  from nne have b: "tl (nh @ [v]) ! (length (tl (nh @ [v])) - Suc 0) = v" for v
    by (cases nh) (simp_all add: nth_append)
  from assms(2,3) show ?thesis
    unfolding setState_def Let_def nh_def [symmetric] cur'
    by (simp add: state_def a b del: tl_append2 length_tl length_append)
qed

lemma setState_state:
  assumes "hook_inv m h" and "\<not> isApplyingHistory h"
    and "stringify (actualNewState n (state h)) = stringify (state h) \<longrightarrow>
         actualNewState n (state h) = state h"
  shows "state (setState stringify m n h) = actualNewState n (state h)"
proof (cases "stringify (state h) = stringify (actualNewState n (state h))")
  case True
  with assms(3) have e: "actualNewState n (state h) = state h" by simp
  have "(if currentIndex h < length (history h) - 1
         then take (currentIndex h + 1) (history h) else history h) ! currentIndex h = state h"
    by (simp add: state_def)
  with True have "setState stringify m n h = h"
    unfolding setState_def Let_def by simp
  with e show ?thesis by simp
next
  case False
  with assms(1,2) show ?thesis by (rule setState_changes)
qed

lemma setState_push:
  assumes "\<not> isApplyingHistory h" and "currentIndex h = length (history h) - 1"
    and "stringify (state h) \<noteq> stringify (actualNewState n (state h))"
    and "length (history h) < m"
  shows "setState stringify m n h =
    h\<lparr>history := history h @ [actualNewState n (state h)], currentIndex := length (history h)\<rparr>"
  using assms unfolding setState_def Let_def state_def by simp

lemma setState_branch:
  assumes "\<not> isApplyingHistory h" and "currentIndex h < length (history h) - 1"
    and "stringify (state h) \<noteq> stringify (actualNewState n (state h))"
    and "length (history h) \<le> m"
  shows "setState stringify m n h =
    h\<lparr>history := take (currentIndex h + 1) (history h) @ [actualNewState n (state h)],
      currentIndex := currentIndex h + 1\<rparr>"
  using assms unfolding setState_def Let_def state_def by (simp add: min_def)

section \<open>Properties of the history hook\<close>

lemmas hook_eval =
  session_def useHistory_def setState_def actualNewState_def undo_def redo_def
  clearHistory_def resetApplying_def state_def canUndo_def canRedo_def historySize_def Let_def

text \<open>
  C3, as the code has it. With \<open>maxHistorySize\<close> at least one, no session holds more than
  \<open>maxHistorySize\<close> entries. When appending the candidate to the (truncated) history
  would exceed the cap, the oldest entry is dropped, the history holds exactly
  \<open>maxHistorySize\<close> entries, and \<open>currentIndex\<close> is the last index, where the candidate
  stands.
\<close>

theorem C3_history_bounded:
  assumes "1 \<le> m" and "h = session stringify init m cs"
    and "v = actualNewState n (state h)" and "h' = setState stringify m n h"
  shows "historySize h \<le> m \<and>
    (\<not> isApplyingHistory h \<and> stringify (state h) \<noteq> stringify v \<and>
     m < length (take (currentIndex h + 1) (history h) @ [v]) \<longrightarrow>
       history h' = tl (history h) @ [v] \<and> historySize h' = m \<and>
       currentIndex h' = historySize h' - 1 \<and> state h' = v)"
proof -
  from assms(2) have i: "hook_inv m h" by (simp add: hook_inv_session)
  with assms(1) have bound: "historySize h \<le> m"
    by (simp add: hook_inv_def historySize_def)
  have "history h' = tl (history h) @ [v] \<and> historySize h' = m \<and>
       currentIndex h' = historySize h' - 1 \<and> state h' = v"
    if g: "\<not> isApplyingHistory h" and d: "stringify (state h) \<noteq> stringify v"
      and o: "m < length (take (currentIndex h + 1) (history h) @ [v])"
  proof -
    from i have ne: "history h \<noteq> []" and idx: "currentIndex h < length (history h)"
      by (simp_all add: hook_inv_def)
    from o idx bound have tip: "currentIndex h + 1 = length (history h)" and full: "length (history h) = m"
      by (auto simp: historySize_def min_def split: if_splits)
    from tip have nt: "\<not> currentIndex h < length (history h) - 1" by simp
    from d assms(3) have d': "stringify (history h ! currentIndex h) \<noteq>
        stringify (actualNewState n (history h ! currentIndex h))"
      by (simp add: state_def)
    from g nt d' full have h': "h' = h\<lparr>history := tl (history h @ [v]),
        currentIndex := length (tl (history h @ [v])) - 1\<rparr>"
      unfolding assms(4) assms(3) setState_def Let_def state_def by simp
    from ne have tl: "tl (history h @ [v]) = tl (history h) @ [v]" by simp
    from h' tl ne full assms(1) show ?thesis
      by (simp add: historySize_def state_def nth_append)
  qed
  with bound show ?thesis by blast
qed

theorem C3_history_bounded_witness:
  "(1::nat) \<le> 2 \<and> historySize fullHistory \<le> 2 \<and> \<not> isApplyingHistory fullHistory \<and>
   state fullHistory \<noteq> 2 \<and>
   2 < length (take (currentIndex fullHistory + 1) (history fullHistory) @ [2]) \<and>
   history (setState (\<lambda>x. x) 2 (Value 2) fullHistory) = [1, 2] \<and>
   currentIndex (setState (\<lambda>x. x) 2 (Value 2) fullHistory) = 1"
proof -
  have e: "fullHistory = \<lparr>history = [0, 1], currentIndex = 1, isApplyingHistory = False\<rparr>"
    by (simp add: fullHistory_def hook_eval)
  from C3_history_bounded [of 2 fullHistory "\<lambda>x. x" 0 "[SetState (Value 1)]" 2 "Value 2"
      "setState (\<lambda>x. x) 2 (Value 2) fullHistory"]
  have "historySize fullHistory \<le> 2 \<and>
    history (setState (\<lambda>x. x) 2 (Value 2) fullHistory) = tl (history fullHistory) @ [2] \<and>
    currentIndex (setState (\<lambda>x. x) 2 (Value 2) fullHistory) =
      historySize (setState (\<lambda>x. x) 2 (Value 2) fullHistory) - 1"
    by (simp add: fullHistory_def hook_eval)
  then show ?thesis
    by (simp add: e hook_eval)
qed

text \<open>
  The claim as worded, for every cap: a hook created with \<open>maxHistorySize = 0\<close> holds
  one entry from the start and after every \<open>setState\<close>.
\<close>

theorem C3_cap_zero_counterexample:
  "\<not> historySize (session (\<lambda>x. x) (0::nat) 0 [SetState (Value 1)]) \<le> 0"
  by (simp add: hook_eval)

text \<open>
  C4, as the code has it. In every session, when the guard \<open>isApplyingHistory\<close> is
  clear, \<open>currentIndex\<close> is not the last index and the serialisations of the candidate
  and of the current entry differ, \<open>setState\<close> keeps the entries up to \<open>currentIndex\<close>,
  drops every later one, appends the candidate and moves \<open>currentIndex\<close> to it, the new last
  index: \<open>canRedo\<close> is false afterwards.
\<close>

theorem C4_redo_branch_discarded:
  assumes "h = session stringify init m cs"
    and "v = actualNewState n (state h)" and "h' = setState stringify m n h"
    and "\<not> isApplyingHistory h"
    and "currentIndex h < historySize h - 1"
    and "stringify v \<noteq> stringify (state h)"
  shows "history h' = take (currentIndex h + 1) (history h) @ [v] \<and>
    currentIndex h' = currentIndex h + 1 \<and> currentIndex h' = historySize h' - 1 \<and>
    state h' = v \<and> \<not> canRedo h'"
proof -
  from assms(1) have "hook_inv m h" by (simp add: hook_inv_session)
  with assms(5) have idx: "currentIndex h < length (history h) - 1"
    and cap: "length (history h) \<le> m"
    by (auto simp: hook_inv_def historySize_def max_def split: if_splits)
  from idx have cur: "take (currentIndex h + 1) (history h) ! currentIndex h = state h"
    by (simp add: state_def)
  from idx cap have fits: "\<not> m < length (take (currentIndex h + 1) (history h) @ [v])"
    by simp
  from assms(6) have d: "stringify (state h) \<noteq> stringify v" by simp
  have h': "h' = h\<lparr>history := take (currentIndex h + 1) (history h) @ [v],
      currentIndex := length (take (currentIndex h + 1) (history h) @ [v]) - 1\<rparr>"
    unfolding assms(3) setState_def Let_def
    using assms(4) idx fits d by (simp only: cur assms(2) [symmetric] if_True if_False)
  from idx have len: "length (take (currentIndex h + 1) (history h)) = currentIndex h + 1"
    by simp
  from h' len show ?thesis
    by (simp add: historySize_def state_def canRedo_def nth_append)
qed

theorem C4_redo_branch_discarded_witness:
  "\<not> isApplyingHistory undoSettled \<and>
   currentIndex undoSettled < historySize undoSettled - 1 \<and>
   (2::nat) \<noteq> state undoSettled \<and>
   history undoSettled = [0, 1] \<and>
   history (setState (\<lambda>x. x) 50 (Value 2) undoSettled) = [0, 2] \<and>
   currentIndex (setState (\<lambda>x. x) 50 (Value 2) undoSettled) = 1 \<and>
   \<not> canRedo (setState (\<lambda>x. x) 50 (Value 2) undoSettled)"
proof -
  have e: "undoSettled = \<lparr>history = [0, 1], currentIndex = 0, isApplyingHistory = False\<rparr>"
    by (simp add: undoSettled_def hook_eval)
  from C4_redo_branch_discarded [OF undoSettled_def refl refl, of "Value 2"]
  have "history (setState (\<lambda>x. x) 50 (Value 2) undoSettled) =
      take (currentIndex undoSettled + 1) (history undoSettled) @ [2] \<and>
    currentIndex (setState (\<lambda>x. x) 50 (Value 2) undoSettled) = currentIndex undoSettled + 1 \<and>
    \<not> canRedo (setState (\<lambda>x. x) 50 (Value 2) undoSettled)"
    by (simp add: e actualNewState_def state_def historySize_def)
  then show ?thesis
    by (simp add: e state_def historySize_def)
qed

text \<open>
  The claim as worded fails right after an \<open>undo\<close>, before the timeout has cleared the
  guard: the index is not the last one, the candidate differs from the current entry,
  and \<open>setState\<close> returns at once, so the redo branch stays.
\<close>

theorem C4_guard_counterexample:
  "currentIndex afterUndo < historySize afterUndo - 1 \<and> (2::nat) \<noteq> state afterUndo \<and>
   setState (\<lambda>x. x) 50 (Value 2) afterUndo = afterUndo \<and>
   history (setState (\<lambda>x. x) 50 (Value 2) afterUndo) = [0, 1] \<and>
   canRedo (setState (\<lambda>x. x) 50 (Value 2) afterUndo)"
  by (simp add: afterUndo_def hook_eval)

text \<open>
  C5, as the code has it. The test of \<open>setState\<close> is the equality of the two
  serialisations. When the serialisation of the candidate (the value given, or the
  result of the updater on the current entry) equals that of the current entry, as it
  does when the two are the same value, \<open>setState\<close> leaves the hook as it is: the same
  entries, the same \<open>historySize\<close> and the same \<open>currentIndex\<close>.
\<close>

theorem C5_equal_candidate_is_noop:
  assumes "stringify (actualNewState n (state h)) = stringify (state h)"
  shows "setState stringify m n h = h \<and>
    history (setState stringify m n h) = history h \<and>
    historySize (setState stringify m n h) = historySize h \<and>
    currentIndex (setState stringify m n h) = currentIndex h"
proof -
  have "(if currentIndex h < length (history h) - 1
         then take (currentIndex h + 1) (history h) else history h) ! currentIndex h = state h"
    by (simp add: state_def)
  with assms have "setState stringify m n h = h"
    unfolding setState_def Let_def by simp
  then show ?thesis by simp
qed

theorem C5_equal_candidate_is_noop_witness:
  "setState (\<lambda>x. x) 2 (Updater (\<lambda>x. x * 1)) fullHistory = fullHistory \<and>
   setState (\<lambda>x. x) 2 (Value 1) fullHistory = fullHistory \<and>
   historySize (setState (\<lambda>x. x) 2 (Value 1) fullHistory) = 2"
proof -
  have e: "fullHistory = \<lparr>history = [0, 1], currentIndex = 1, isApplyingHistory = False\<rparr>"
    by (simp add: fullHistory_def hook_eval)
  have a: "actualNewState (Updater (\<lambda>x. x * 1)) (state fullHistory) = state fullHistory"
    and b: "actualNewState (Value 1) (state fullHistory) = state fullHistory"
    by (simp_all add: e actualNewState_def state_def)
  from C5_equal_candidate_is_noop [of "\<lambda>x. x" "Updater (\<lambda>x. x * 1)" fullHistory 2]
    C5_equal_candidate_is_noop [of "\<lambda>x. x" "Value 1" fullHistory 2] a b
  show ?thesis
    by (simp add: e historySize_def)
qed

text \<open>
  The claim as worded, for deep-equal values: an object with the same keys and values in
  another order is deep-equal to the current entry, but its serialisation differs, and
  \<open>setState\<close> pushes it as a new entry.
\<close>

theorem C5_key_order_counterexample:
  "deepEqual objectBA (state (useHistory objectAB)) \<and>
   stringifyObject objectBA \<noteq> stringifyObject (state (useHistory objectAB)) \<and>
   historySize (useHistory objectAB) = 1 \<and>
   historySize (setState stringifyObject 50 (Value objectBA) (useHistory objectAB)) = 2 \<and>
   history (setState stringifyObject 50 (Value objectBA) (useHistory objectAB)) =
     [objectAB, objectBA]"
proof -
  have st: "state (useHistory objectAB) = objectAB"
    by (simp add: useHistory_def state_def)
  have de: "deepEqual objectBA objectAB"
    by (auto simp: deepEqual_def objectAB_def objectBA_def fun_eq_iff)
  have ne: "stringifyObject objectAB \<noteq> stringifyObject objectBA"
    by (simp add: stringifyObject_def objectAB_def objectBA_def quoted_def)
  have "setState stringifyObject 50 (Value objectBA) (useHistory objectAB) =
      (useHistory objectAB)\<lparr>history := history (useHistory objectAB) @
         [actualNewState (Value objectBA) (state (useHistory objectAB))],
       currentIndex := length (history (useHistory objectAB))\<rparr>"
    by (rule setState_push) (simp_all add: st actualNewState_def ne, simp_all add: useHistory_def)
  then have h: "history (setState stringifyObject 50 (Value objectBA) (useHistory objectAB)) =
      [objectAB, objectBA]"
    by (simp add: actualNewState_def useHistory_def)
  from de ne h show ?thesis
    by (simp add: st historySize_def) (simp add: useHistory_def)
qed

text \<open>
  C6, as the code has it. In every session where \<open>undo\<close> can succeed, \<open>undo\<close> followed
  by the \<open>redo\<close> of the next render returns true twice and gives back the same entries,
  the same \<open>currentIndex\<close> and so the same \<open>state\<close>, \<open>canUndo\<close>, \<open>canRedo\<close> and
  \<open>historySize\<close>; only the guard is left set until its timeout fires. The \<open>redo\<close> of the
  render before the \<open>undo\<close>, called in the same handler, does the same when that render
  could redo; at the last index it returns false and the state stays undone.
\<close>

theorem C6_undo_then_redo:
  assumes "h = session stringify init m cs" and "0 < currentIndex h"
    and "u = undo h" and "r = redo (snd u)" and "rs = redoIn h (snd u)"
  shows "fst u \<and> fst r \<and> snd r = h\<lparr>isApplyingHistory := True\<rparr> \<and>
    history (snd r) = history h \<and> currentIndex (snd r) = currentIndex h \<and>
    state (snd r) = state h \<and> canUndo (snd r) = canUndo h \<and> canRedo (snd r) = canRedo h \<and>
    historySize (snd r) = historySize h \<and> resetApplying (snd r) = resetApplying h \<and>
    (canRedo h \<longrightarrow> rs = r) \<and>
    (\<not> canRedo h \<longrightarrow> rs = (False, snd u) \<and> currentIndex (snd rs) = currentIndex h - 1)"
proof -
  from assms(1) have "hook_inv m h" by (simp add: hook_inv_session)
  then have idx: "currentIndex h < length (history h)" by (simp add: hook_inv_def)
  from assms(2) have u: "u = (True, h\<lparr>isApplyingHistory := True, currentIndex := currentIndex h - 1\<rparr>)"
    by (simp add: assms(3) undo_def)
  from assms(2) idx have r: "r = (True, h\<lparr>isApplyingHistory := True\<rparr>)"
    by (simp add: assms(4) u redo_def)
  from assms(2) have rs: "rs = (if canRedo h then (True, h\<lparr>isApplyingHistory := True\<rparr>)
      else (False, h\<lparr>isApplyingHistory := True, currentIndex := currentIndex h - 1\<rparr>))"
    by (simp add: assms(5) u redoIn_def canRedo_def)
  from u r rs show ?thesis
    by (simp add: state_def canUndo_def canRedo_def historySize_def resetApplying_def)
qed

theorem C6_undo_then_redo_witness:
  "0 < currentIndex fullHistory \<and> fst (undo fullHistory) \<and>
   fst (redo (snd (undo fullHistory))) \<and>
   state (snd (undo fullHistory)) = 0 \<and>
   state (snd (redo (snd (undo fullHistory)))) = state fullHistory \<and>
   currentIndex (snd (redo (snd (undo fullHistory)))) = 1"
proof -
  have e: "fullHistory = \<lparr>history = [0, 1], currentIndex = 1, isApplyingHistory = False\<rparr>"
    by (simp add: fullHistory_def hook_eval)
  have p: "0 < currentIndex fullHistory" by (simp add: e)
  from C6_undo_then_redo [OF fullHistory_def p refl refl refl]
  have "fst (undo fullHistory) \<and> fst (redo (snd (undo fullHistory))) \<and>
    state (snd (redo (snd (undo fullHistory)))) = state fullHistory \<and>
    currentIndex (snd (redo (snd (undo fullHistory)))) = currentIndex fullHistory"
    by blast
  then show ?thesis
    by (simp add: e hook_eval)
qed

text \<open>
  The claim as worded, with \<open>redo\<close> called at once: at the last index the \<open>redo\<close> of
  the render before the \<open>undo\<close> returns false, and the state stays the undone one.
\<close>

theorem C6_same_handler_counterexample:
  "0 < currentIndex fullHistory \<and> fst (undo fullHistory) \<and>
   \<not> fst (redoIn fullHistory (snd (undo fullHistory))) \<and>
   state fullHistory = 1 \<and>
   state (snd (redoIn fullHistory (snd (undo fullHistory)))) = 0 \<and>
   currentIndex (snd (redoIn fullHistory (snd (undo fullHistory)))) = 0"
proof -
  have e: "fullHistory = \<lparr>history = [0, 1], currentIndex = 1, isApplyingHistory = False\<rparr>"
    by (simp add: fullHistory_def hook_eval)
  show ?thesis
    by (simp add: e undo_def redoIn_def state_def)
qed

section \<open>Properties of the text node's handles\<close>

text \<open>
  The pattern matches at the start of a string exactly when the string is two opening
  braces, a non-empty name without a closing brace, two closing braces, and a rest; the
  name and the rest are then unique, so greedy matching and backtracking agree.
\<close>

lemma takeWhile_upto: "c \<notin> set xs \<Longrightarrow> takeWhile (\<lambda>x. x \<noteq> c) (xs @ c # ys) = xs"
  by (induction xs) auto

lemma dropWhile_upto: "c \<notin> set xs \<Longrightarrow> dropWhile (\<lambda>x. x \<noteq> c) (xs @ c # ys) = c # ys"
  by (induction xs) auto

lemma matchHere_iff:
  "matchHere s = Some (name, rest) \<longleftrightarrow>
     s = ''{{'' @ name @ ''}}'' @ rest \<and> name \<noteq> [] \<and> CHR ''}'' \<notin> set name"
proof
  assume "matchHere s = Some (name, rest)"
  then obtain r where s: "s = CHR ''{'' # CHR ''{'' # r"
    and name: "name = takeWhile (\<lambda>c. c \<noteq> CHR ''}'') r" and ne: "name \<noteq> []"
    and close: "take 2 (dropWhile (\<lambda>c. c \<noteq> CHR ''}'') r) = ''}}''"
    and rest: "rest = drop 2 (dropWhile (\<lambda>c. c \<noteq> CHR ''}'') r)"
    by (auto simp: matchHere_def Let_def split: list.splits if_splits)
  from close rest have "dropWhile (\<lambda>c. c \<noteq> CHR ''}'') r = ''}}'' @ rest"
    by (metis append_take_drop_id)
  with name have "r = name @ ''}}'' @ rest"
    by (metis takeWhile_dropWhile_id)
  moreover from name have "CHR ''}'' \<notin> set name"
    by (auto dest: set_takeWhileD)
  ultimately show "s = ''{{'' @ name @ ''}}'' @ rest \<and> name \<noteq> [] \<and> CHR ''}'' \<notin> set name"
    using s ne by simp
next
  assume a: "s = ''{{'' @ name @ ''}}'' @ rest \<and> name \<noteq> [] \<and> CHR ''}'' \<notin> set name"
  then have t: "takeWhile (\<lambda>c. c \<noteq> CHR ''}'') (name @ ''}}'' @ rest) = name"
    and d: "dropWhile (\<lambda>c. c \<noteq> CHR ''}'') (name @ ''}}'' @ rest) = ''}}'' @ rest"
    by (simp_all add: takeWhile_upto dropWhile_upto)
  from a t d show "matchHere s = Some (name, rest)"
    by (simp add: matchHere_def Let_def)
qed

text \<open>The loop is a left fold of its push over the trimmed occurrences.\<close>

lemma variablesLoop_fold:
  "variablesLoop s acc =
     foldl (\<lambda>ms n. if n \<noteq> [] \<and> n \<notin> set ms then ms @ [n] else ms) acc
       (map trim (occurrences s))"
proof (induction s acc rule: variablesLoop.induct)
  case (1 s matches)
  show ?case
  proof (cases "exec s")
    case None
    then show ?thesis
      by (simp add: variablesLoop.simps [of s] occurrences.simps [of s])
  next
    case (Some p)
    obtain m1 rest where p: "p = (m1, rest)" by (cases p)
    from Some p "1.IH" [OF Some [unfolded p] refl refl] show ?thesis
      by (simp add: variablesLoop.simps [of s] occurrences.simps [of s] Let_def)
  qed
qed

lemma fold_firstSeen:
  "foldl (\<lambda>ms n. if n \<noteq> [] \<and> n \<notin> set ms then ms @ [n] else ms) acc ns =
     acc @ firstSeen (filter (\<lambda>n. n \<noteq> [] \<and> n \<notin> set acc) ns)"
proof (induction ns arbitrary: acc)
  case Nil
  then show ?case by simp
next
  case (Cons n ns)
  have "(\<lambda>x. (x \<noteq> [] \<and> x \<notin> set acc) \<and> x \<noteq> n) = (\<lambda>x. x \<noteq> [] \<and> x \<noteq> n \<and> x \<notin> set acc)"
    by auto
  with Cons show ?case by simp
qed

lemma variables_firstSeen:
  "variables text = firstSeen (filter (\<lambda>name. name \<noteq> []) (map trim (occurrences text)))"
  by (simp add: variables_def variablesLoop_fold fold_firstSeen)

lemma inputHandles_ids: "map handle_id (inputHandles vars) = vars"
  by (simp add: inputHandles_def comp_def case_prod_unfold)

lemma inputHandles_types:
  "map handle_type (inputHandles vars) = replicate (length vars) ''target''"
  by (simp add: inputHandles_def comp_def case_prod_unfold map_replicate_const)

text \<open>
  C7. For every text, the ids of the derived handles are those of the reference
  definition; the handles before the last are inputs (\<open>target\<close>) and the last is the
  output (\<open>source\<close>). The text of the specification's example gives \<open>name\<close>, \<open>age\<close>,
  \<open>output\<close>.
\<close>

theorem C7_handles_refine_reference:
  "map handle_id (handles text) = spec_handle_ids text \<and>
   map handle_type (handles text) =
     replicate (length (variables text)) ''target'' @ [''source''] \<and>
   map handle_id (handles ''Hello {{name}}, you are {{age}} and {{name}} again'') =
     [''name'', ''age'', ''output'']"
proof -
  have ids: "map handle_id (handles t) = spec_handle_ids t" for t
    by (simp add: handles_def spec_handle_ids_def inputHandles_ids variables_firstSeen)
  have types: "map handle_type (handles text) =
      replicate (length (variables text)) ''target'' @ [''source'']"
    by (simp add: handles_def inputHandles_types)
  have "variables ''Hello {{name}}, you are {{age}} and {{name}} again'' = [''name'', ''age'']"
    by code_simp
  then have ex: "map handle_id (handles ''Hello {{name}}, you are {{age}} and {{name}} again'') =
      [''name'', ''age'', ''output'']"
    by (simp add: handles_def inputHandles_ids)
  from ids types ex show ?thesis by blast
qed

theorem C7_handles_refine_reference_witness:
  "map handle_id (handles ''{{ x }}{{ }}{{x}}{{{y}}'') = [''x'', ''{y'', ''output''] \<and>
   spec_handle_ids ''{{ x }}{{ }}{{x}}{{{y}}'' = [''x'', ''{y'', ''output'']"
proof -
  have "firstSeen (filter (\<lambda>name. name \<noteq> []) (map trim (occurrences ''{{ x }}{{ }}{{x}}{{{y}}''))) =
      [''x'', ''{y'']"
    by code_simp
  then have "spec_handle_ids ''{{ x }}{{ }}{{x}}{{{y}}'' = [''x'', ''{y'', ''output'']"
    by (simp add: spec_handle_ids_def)
  with C7_handles_refine_reference [of "''{{ x }}{{ }}{{x}}{{{y}}''"] show ?thesis
    by simp
qed

section \<open>Properties of the editor's handlers\<close>

text \<open>
  The digits of \<open>toString\<close>, what the handlers do to the history, and the history
  after one and two connections.
\<close>

lemma digit_chars:
  "char_of (48::nat) = CHR ''0''" "char_of (49::nat) = CHR ''1''" "char_of (50::nat) = CHR ''2''"
  "char_of (51::nat) = CHR ''3''" "char_of (52::nat) = CHR ''4''" "char_of (53::nat) = CHR ''5''"
  "char_of (54::nat) = CHR ''6''" "char_of (55::nat) = CHR ''7''" "char_of (56::nat) = CHR ''8''"
  "char_of (57::nat) = CHR ''9''"
  by (simp_all add: char_of_def bit_Suc_0_iff)

lemma toString_now: "toString 1700000000000 = ''1700000000000''"
  by (simp add: toString.simps digit_chars)

lemma toString_4: "toString 4 = ''4''"
  by (simp add: toString.simps digit_chars)

lemma edges_differ: "edges g \<noteq> es \<Longrightarrow> g \<noteq> g\<lparr>edges := es\<rparr>"
  by (cases g) auto

lemma hist_dispatch: "hist (dispatch lib ev ed) = hist (handler lib ev ed)"
  by (simp add: dispatch_def syncEffect_def)

lemma timers_dispatch: "timers (dispatch lib ev ed) = timers (handler lib ev ed)"
  by (simp add: dispatch_def syncEffect_def)

lemma hist_onConnect:
  "hist (onConnect stringify params now ed) =
     setState stringify 100
       (Updater (\<lambda>p. p\<lparr>edges := edges (state (hist ed)) @
          [\<lparr>edge_id = newEdgeId params now, edge_source = conn_source params,
            edge_target = conn_target params, edge_sourceHandle = conn_sourceHandle params,
            edge_targetHandle = conn_targetHandle params, edge_selected = None\<rparr>]\<rparr>))
       (hist ed)"
proof -
  have "spread p \<lparr>upd_nodes = None, upd_edges = Some es, upd_nodeIdCounter = None\<rparr> =
      p\<lparr>edges := es\<rparr>" for p es
    by (simp add: spread_def)
  then show ?thesis
    by (simp add: onConnect_def updateEditorState_def editorState_def Let_def)
qed

lemma connect_once:
  "hist (runEvents exampleLibrary initialEditor [Connect connection12 1700000000000]) =
     \<lparr>history = [initialState, initialState\<lparr>edges := initialEdges @ [edge12]\<rparr>],
      currentIndex = 1, isApplyingHistory = False\<rparr>"
proof -
  have h0: "hist initialEditor =
      \<lparr>history = [initialState], currentIndex = 0, isApplyingHistory = False\<rparr>"
    by (simp add: initialEditor_def useHistory_def)
  have e: "\<lparr>edge_id = newEdgeId connection12 1700000000000, edge_source = conn_source connection12,
            edge_target = conn_target connection12, edge_sourceHandle = conn_sourceHandle connection12,
            edge_targetHandle = conn_targetHandle connection12, edge_selected = None\<rparr> = edge12"
    by (simp add: newEdgeId_def connection12_def toString_now edge12_def)
  have s0: "edges initialState = initialEdges"
    by (simp add: initialState_def)
  have d: "initialState \<noteq> initialState\<lparr>edges := initialEdges @ [edge12]\<rparr>"
    by (rule edges_differ) (simp add: s0)
  have "setState (\<lambda>g. g) 100 (Updater (\<lambda>p. p\<lparr>edges := edges (state (hist initialEditor)) @ [edge12]\<rparr>))
      (hist initialEditor) =
    (hist initialEditor)\<lparr>history := history (hist initialEditor) @
       [actualNewState (Updater (\<lambda>p. p\<lparr>edges := edges (state (hist initialEditor)) @ [edge12]\<rparr>))
          (state (hist initialEditor))],
     currentIndex := length (history (hist initialEditor))\<rparr>"
    by (rule setState_push) (simp_all add: h0 state_def actualNewState_def s0 d)
  then show ?thesis
    by (simp add: hist_dispatch hist_onConnect e exampleLibrary_def)
       (simp add: h0 state_def actualNewState_def s0)
qed

lemma connect_twice:
  "hist (runEvents exampleLibrary initialEditor
      [Connect connection12 1700000000000, Connect connection12 1700000000000]) =
     \<lparr>history = [initialState, initialState\<lparr>edges := initialEdges @ [edge12]\<rparr>,
                 initialState\<lparr>edges := initialEdges @ [edge12, edge12]\<rparr>],
      currentIndex = 2, isApplyingHistory = False\<rparr>"
proof -
  define ed where "ed = runEvents exampleLibrary initialEditor [Connect connection12 1700000000000]"
  have h1: "hist ed =
      \<lparr>history = [initialState, initialState\<lparr>edges := initialEdges @ [edge12]\<rparr>],
       currentIndex = 1, isApplyingHistory = False\<rparr>"
    unfolding ed_def by (rule connect_once)
  have e: "\<lparr>edge_id = newEdgeId connection12 1700000000000, edge_source = conn_source connection12,
            edge_target = conn_target connection12, edge_sourceHandle = conn_sourceHandle connection12,
            edge_targetHandle = conn_targetHandle connection12, edge_selected = None\<rparr> = edge12"
    by (simp add: newEdgeId_def connection12_def toString_now edge12_def)
  have st: "state (hist ed) = initialState\<lparr>edges := initialEdges @ [edge12]\<rparr>"
    by (simp add: h1 state_def)
  have d: "state (hist ed) \<noteq> (state (hist ed))\<lparr>edges := edges (state (hist ed)) @ [edge12]\<rparr>"
    by (rule edges_differ) simp
  have "setState (\<lambda>g. g) 100 (Updater (\<lambda>p. p\<lparr>edges := edges (state (hist ed)) @ [edge12]\<rparr>)) (hist ed) =
    (hist ed)\<lparr>history := history (hist ed) @
       [actualNewState (Updater (\<lambda>p. p\<lparr>edges := edges (state (hist ed)) @ [edge12]\<rparr>)) (state (hist ed))],
     currentIndex := length (history (hist ed))\<rparr>"
    by (rule setState_push) (simp_all add: actualNewState_def d, simp_all add: h1)
  then have "hist (dispatch exampleLibrary (Connect connection12 1700000000000) ed) =
      \<lparr>history = [initialState, initialState\<lparr>edges := initialEdges @ [edge12]\<rparr>,
                 initialState\<lparr>edges := initialEdges @ [edge12, edge12]\<rparr>],
      currentIndex = 2, isApplyingHistory = False\<rparr>"
    by (simp add: hist_dispatch hist_onConnect e exampleLibrary_def)
       (simp add: st actualNewState_def, simp add: h1)
  then show ?thesis by (simp add: ed_def)
qed


text \<open>
  C2, on the code. Two connections between the same endpoints made at the same value of
  the clock get the same id: the id is made of the endpoints and \<open>Date.now()\<close> only, and
  the editor then holds two edges with one id.
\<close>

theorem C2_same_millisecond_same_id:
  "map edge_id (edges (editorState (runEvents exampleLibrary initialEditor
      [Connect connection12 1700000000000, Connect connection12 1700000000000]))) =
     [''e1-2'', ''e2-3'', ''e1-2-1700000000000'', ''e1-2-1700000000000''] \<and>
   \<not> distinct (map edge_id (edges (editorState (runEvents exampleLibrary initialEditor
      [Connect connection12 1700000000000, Connect connection12 1700000000000]))))"
proof -
  have "map edge_id (edges (editorState (runEvents exampleLibrary initialEditor
      [Connect connection12 1700000000000, Connect connection12 1700000000000]))) =
     [''e1-2'', ''e2-3'', ''e1-2-1700000000000'', ''e1-2-1700000000000'']"
    by (simp only: editorState_def connect_twice)
       (simp add: state_def initialEdges_def edge12_def)
  then show ?thesis by simp
qed

lemma editorUndo_step:
  assumes "hist ed = \<lparr>history = hs, currentIndex = Suc i, isApplyingHistory = g\<rparr>"
  shows "hist (snd (editorUndo ed)) = \<lparr>history = hs, currentIndex = i, isApplyingHistory = True\<rparr>"
    and "timers (snd (editorUndo ed)) = timers ed @ [ResetApplying]"
  using assms by (simp_all add: editorUndo_def undo_def)

lemma deleteSelectedNodes_guarded:
  "isApplyingHistory (hist ed) \<Longrightarrow> deleteSelectedNodes stringify ed = ed"
  by (simp add: deleteSelectedNodes_def updateEditorState_def setState_def split: option.splits)

text \<open>
  C9, as the code has it. The object that \<open>deleteSelectedNodes\<close> passes to
  \<open>updateEditorState\<close> keeps, in their order, exactly the nodes whose id is not selected
  and exactly the edges with neither end selected, and leaves the counter; with no node
  selected nothing is passed and nothing changes. When the guard of the history is
  clear this object becomes the current state; while the guard is set nothing is
  removed. In the graph with the edges from A to C, from B to D and from C to D,
  removing A and B with the guard clear leaves the nodes C and D and the edge from C to
  D.
\<close>

theorem C9_removal_cascades:
  assumes "S = set (selectedNodeIds ed)" and "st = editorState ed"
    and "st' = editorState (deleteSelectedNodes stringify ed)"
  shows
    "(\<forall>u. deleteSelectedNodesUpdates ed = Some u \<longrightarrow>
        nodes (spread st u) = filter (\<lambda>n. node_id n \<notin> S) (nodes st) \<and>
        edges (spread st u) =
          filter (\<lambda>e. \<not> (edge_source e \<in> S \<or> edge_target e \<in> S)) (edges st) \<and>
        nodeIdCounter (spread st u) = nodeIdCounter st) \<and>
     (deleteSelectedNodesUpdates ed = None \<longrightarrow> S = {} \<and> deleteSelectedNodes stringify ed = ed) \<and>
     (hook_inv 100 (hist ed) \<and> \<not> isApplyingHistory (hist ed) \<and>
      (\<forall>g. stringify g = stringify st \<longrightarrow> g = st) \<longrightarrow>
        nodes st' = filter (\<lambda>n. node_id n \<notin> S) (nodes st) \<and>
        edges st' = filter (\<lambda>e. \<not> (edge_source e \<in> S \<or> edge_target e \<in> S)) (edges st) \<and>
        nodeIdCounter st' = nodeIdCounter st \<and>
        set (nodes st') = set (nodes st) - {n. node_id n \<in> S} \<and>
        set (edges st') = set (edges st) - {e. edge_source e \<in> S \<or> edge_target e \<in> S}) \<and>
     (isApplyingHistory (hist ed) \<longrightarrow> deleteSelectedNodes stringify ed = ed)"
proof -
  have cand: "nodes (spread st u) = filter (\<lambda>n. node_id n \<notin> S) (nodes st) \<and>
        edges (spread st u) =
          filter (\<lambda>e. \<not> (edge_source e \<in> S \<or> edge_target e \<in> S)) (edges st) \<and>
        nodeIdCounter (spread st u) = nodeIdCounter st"
    if "deleteSelectedNodesUpdates ed = Some u" for u
    using that assms(1,2)
    by (auto simp: deleteSelectedNodesUpdates_def selectedNodeIds_def spread_def Let_def
        split: if_splits)
  have none: "S = {} \<and> deleteSelectedNodes stringify ed = ed"
    if "deleteSelectedNodesUpdates ed = None"
    using that assms(1)
    by (auto simp: deleteSelectedNodesUpdates_def selectedNodeIds_def deleteSelectedNodes_def
        Let_def filter_empty_conv split: if_splits)
  have eff: "nodes st' = filter (\<lambda>n. node_id n \<notin> S) (nodes st) \<and>
        edges st' = filter (\<lambda>e. \<not> (edge_source e \<in> S \<or> edge_target e \<in> S)) (edges st) \<and>
        nodeIdCounter st' = nodeIdCounter st"
    if i: "hook_inv 100 (hist ed)" and g: "\<not> isApplyingHistory (hist ed)"
      and inj: "\<forall>g. stringify g = stringify st \<longrightarrow> g = st"
  proof (cases "deleteSelectedNodesUpdates ed")
    case None
    with none assms show ?thesis by simp
  next
    case (Some u)
    from inj assms(2) have "stringify (actualNewState (Updater (\<lambda>p. spread p u)) (state (hist ed))) =
        stringify (state (hist ed)) \<longrightarrow>
        actualNewState (Updater (\<lambda>p. spread p u)) (state (hist ed)) = state (hist ed)"
      by (simp add: editorState_def)
    with i g have "state (setState stringify 100 (Updater (\<lambda>p. spread p u)) (hist ed)) =
        actualNewState (Updater (\<lambda>p. spread p u)) (state (hist ed))"
      by (rule setState_state)
    with Some assms have "st' = spread st u"
      by (simp add: deleteSelectedNodes_def updateEditorState_def editorState_def
          actualNewState_def)
    with cand [OF Some] show ?thesis by simp
  qed
  have guarded: "isApplyingHistory (hist ed) \<longrightarrow> deleteSelectedNodes stringify ed = ed"
    by (simp add: deleteSelectedNodes_guarded)
  from cand none eff guarded show ?thesis by auto
qed

theorem C9_removal_cascades_witness:
  "hook_inv 100 (hist abcdEditor) \<and> \<not> isApplyingHistory (hist abcdEditor) \<and>
   set (selectedNodeIds abcdEditor) = {''A'', ''B''} \<and>
   map edge_id (edges (editorState abcdEditor)) = [''eA-C'', ''eB-D'', ''eC-D''] \<and>
   map node_id (nodes (editorState (deleteSelectedNodes (\<lambda>g. g) abcdEditor))) = [''C'', ''D''] \<and>
   edges (editorState (deleteSelectedNodes (\<lambda>g. g) abcdEditor)) =
     [plainEdge ''eC-D'' ''C'' ''D'']"
proof -
  have i: "hook_inv 100 (hist abcdEditor)" and g: "\<not> isApplyingHistory (hist abcdEditor)"
    by (simp_all add: abcdEditor_def hook_inv_def useHistory_def)
  have sel: "set (selectedNodeIds abcdEditor) = {''A'', ''B''}"
    by (auto simp: abcdEditor_def selectedNodeIds_def plainNode_def)
  have st: "editorState abcdEditor = abcdState"
    by (simp add: abcdEditor_def editorState_def state_def useHistory_def)
  from C9_removal_cascades [OF refl refl refl, of abcdEditor "\<lambda>g. g"] i g
  have "nodes (editorState (deleteSelectedNodes (\<lambda>g. g) abcdEditor)) =
      filter (\<lambda>n. node_id n \<notin> set (selectedNodeIds abcdEditor)) (nodes (editorState abcdEditor)) \<and>
    edges (editorState (deleteSelectedNodes (\<lambda>g. g) abcdEditor)) =
      filter (\<lambda>e. \<not> (edge_source e \<in> set (selectedNodeIds abcdEditor) \<or>
                      edge_target e \<in> set (selectedNodeIds abcdEditor)))
        (edges (editorState abcdEditor))"
    by simp
  with i g sel show ?thesis
    by (simp add: st abcdState_def plainNode_def plainEdge_def)
qed

text \<open>
  The claim as worded fails while the guard is set: after a connection and its undo,
  with A and B selected, \<open>deleteSelectedNodes\<close> leaves all four nodes and all three
  edges.
\<close>

lemma abcdUndone_fields:
  "isApplyingHistory (hist abcdUndone)"
  "editorState abcdUndone = abcdState"
  "reactFlowNodes abcdUndone = reactFlowNodes abcdEditor"
proof -
  have h0: "hist abcdEditor = \<lparr>history = [abcdState], currentIndex = 0, isApplyingHistory = False\<rparr>"
    by (simp add: abcdEditor_def useHistory_def)
  define e :: edge where "e = \<lparr>edge_id = newEdgeId connectionAD 1700000000000,
      edge_source = conn_source connectionAD, edge_target = conn_target connectionAD,
      edge_sourceHandle = conn_sourceHandle connectionAD,
      edge_targetHandle = conn_targetHandle connectionAD, edge_selected = None\<rparr>"
  define n :: "graph_state new_state" where
    "n = Updater (\<lambda>p. p\<lparr>edges := edges abcdState @ [e]\<rparr>)"
  have st: "state (hist abcdEditor) = abcdState" by (simp add: h0 state_def)
  have ho: "hist (onConnect (\<lambda>g. g) connectionAD 1700000000000 abcdEditor) =
      setState (\<lambda>g. g) 100 n (hist abcdEditor)"
    by (simp only: hist_onConnect e_def [symmetric] st n_def)
  have a: "actualNewState n abcdState = abcdState\<lparr>edges := edges abcdState @ [e]\<rparr>"
    by (simp add: n_def actualNewState_def)
  have d: "abcdState \<noteq> abcdState\<lparr>edges := edges abcdState @ [e]\<rparr>"
    by (rule edges_differ) simp
  have "setState (\<lambda>g. g) 100 n (hist abcdEditor) =
      (hist abcdEditor)\<lparr>history := history (hist abcdEditor) @
         [actualNewState n (state (hist abcdEditor))],
       currentIndex := length (history (hist abcdEditor))\<rparr>"
    by (rule setState_push) (simp_all add: st a d, simp_all add: h0)
  then have h1: "hist (onConnect (\<lambda>g. g) connectionAD 1700000000000 abcdEditor) =
      \<lparr>history = [abcdState, abcdState\<lparr>edges := edges abcdState @ [e]\<rparr>],
       currentIndex = Suc 0, isApplyingHistory = False\<rparr>"
    by (simp only: ho st a) (simp add: h0)
  from editorUndo_step(1) [OF h1]
  have h2: "hist abcdUndone = \<lparr>history = [abcdState, abcdState\<lparr>edges := edges abcdState @ [e]\<rparr>],
       currentIndex = 0, isApplyingHistory = True\<rparr>"
    by (simp add: abcdUndone_def)
  from h2 show "isApplyingHistory (hist abcdUndone)" by simp
  from h2 show "editorState abcdUndone = abcdState" by (simp add: editorState_def state_def)
  from h1 show "reactFlowNodes abcdUndone = reactFlowNodes abcdEditor"
    by (simp add: abcdUndone_def editorUndo_def undo_def onConnect_def updateEditorState_def)
qed

theorem C9_guard_counterexample:
  "isApplyingHistory (hist abcdUndone) \<and>
   set (selectedNodeIds abcdUndone) = {''A'', ''B''} \<and>
   map node_id (nodes (editorState abcdUndone)) = [''A'', ''B'', ''C'', ''D''] \<and>
   deleteSelectedNodes (\<lambda>g. g) abcdUndone = abcdUndone \<and>
   map node_id (nodes (editorState (deleteSelectedNodes (\<lambda>g. g) abcdUndone))) =
     [''A'', ''B'', ''C'', ''D''] \<and>
   map edge_id (edges (editorState (deleteSelectedNodes (\<lambda>g. g) abcdUndone))) =
     [''eA-C'', ''eB-D'', ''eC-D'']"
proof -
  have sel: "set (selectedNodeIds abcdUndone) = {''A'', ''B''}"
    by (auto simp: selectedNodeIds_def abcdUndone_fields(3) abcdEditor_def plainNode_def)
  have d: "deleteSelectedNodes (\<lambda>g. g) abcdUndone = abcdUndone"
    by (rule deleteSelectedNodes_guarded) (rule abcdUndone_fields(1))
  from sel d show ?thesis
    by (simp add: abcdUndone_fields abcdState_def plainNode_def plainEdge_def)
qed

text \<open>
  What the keyboard handler does to the help overlay, for every event and every state
  of the editor.
\<close>

lemma help_updateEditorState [simp]:
  "showKeyboardHelp (updateEditorState stringify u ed) = showKeyboardHelp ed"
  by (simp add: updateEditorState_def)

lemma help_editorUndo: "editorUndo ed = (b, ed') \<Longrightarrow> showKeyboardHelp ed' = showKeyboardHelp ed"
  by (auto simp: editorUndo_def undo_def split: if_splits)

lemma help_editorRedo: "editorRedo ed = (b, ed') \<Longrightarrow> showKeyboardHelp ed' = showKeyboardHelp ed"
  by (auto simp: editorRedo_def redo_def split: if_splits)

lemma help_showActionFeedback [simp]:
  "showKeyboardHelp (showActionFeedback m ed) = showKeyboardHelp ed"
  by (simp add: showActionFeedback_def)

lemma help_deleteSelectedEdges [simp]:
  "showKeyboardHelp (deleteSelectedEdges stringify ed) = showKeyboardHelp ed"
  by (simp add: deleteSelectedEdges_def)

lemma help_deleteSelectedNodes [simp]:
  "showKeyboardHelp (deleteSelectedNodes stringify ed) = showKeyboardHelp ed"
  by (simp add: deleteSelectedNodes_def split: option.splits)

lemma help_clearSelection [simp]: "showKeyboardHelp (clearSelection ed) = showKeyboardHelp ed"
  by (simp add: clearSelection_def)

lemma help_onKeyDown:
  "showKeyboardHelp (onKeyDown stringify event ed) =
     (if (isCtrlOrCmd event \<and> key event = ''z'' \<and> \<not> shiftKey event) \<or>
         (isCtrlOrCmd event \<and> (key event = ''y'' \<or> (key event = ''z'' \<and> shiftKey event))) \<or>
         isTyping event
      then showKeyboardHelp ed
      else if key event = ''?'' \<and> \<not> shiftKey event then \<not> showKeyboardHelp ed
      else if key event = ''Delete'' \<or> key event = ''Backspace'' then showKeyboardHelp ed
      else if key event = ''Escape'' then False
      else showKeyboardHelp ed)"
proof -
  have u: "showKeyboardHelp (case editorUndo ed of (success, ed') \<Rightarrow>
        if success then showActionFeedback m ed' else ed') = showKeyboardHelp ed" for m
    by (cases "editorUndo ed") (simp add: help_editorUndo)
  have r: "showKeyboardHelp (case editorRedo ed of (success, ed') \<Rightarrow>
        if success then showActionFeedback m ed' else ed') = showKeyboardHelp ed" for m
    by (cases "editorRedo ed") (simp add: help_editorRedo)
  show ?thesis
    unfolding onKeyDown_def by (simp add: u r Let_def)
qed

text \<open>
  C10. A keydown whose key is \<open>?\<close>, without shift and outside a field being typed in,
  flips the help overlay; one whose key is \<open>?\<close> with shift leaves it as it is; the
  overlay is opened by no other keydown, and closed by no other but Escape.
\<close>

theorem C10_help_toggle:
  assumes "ed' = onKeyDown stringify event ed"
  shows "(key event = ''?'' \<and> \<not> shiftKey event \<and> \<not> isTyping event \<longrightarrow>
            showKeyboardHelp ed' = (\<not> showKeyboardHelp ed)) \<and>
         (key event = ''?'' \<and> shiftKey event \<longrightarrow> showKeyboardHelp ed' = showKeyboardHelp ed) \<and>
         (showKeyboardHelp ed' \<and> \<not> showKeyboardHelp ed \<longrightarrow>
            key event = ''?'' \<and> \<not> shiftKey event \<and> \<not> isTyping event) \<and>
         (showKeyboardHelp ed' \<noteq> showKeyboardHelp ed \<longrightarrow>
            \<not> isTyping event \<and>
            (key event = ''?'' \<and> \<not> shiftKey event \<or> key event = ''Escape'' \<and> showKeyboardHelp ed))"
  unfolding assms help_onKeyDown by auto

theorem C10_help_toggle_witness:
  "key questionMark = ''?'' \<and> \<not> shiftKey questionMark \<and> \<not> isTyping questionMark \<and>
   \<not> showKeyboardHelp initialEditor \<and>
   showKeyboardHelp (onKeyDown (\<lambda>g. g) questionMark initialEditor) \<and>
   key shiftQuestionMark = ''?'' \<and> shiftKey shiftQuestionMark \<and>
   \<not> showKeyboardHelp (onKeyDown (\<lambda>g. g) shiftQuestionMark initialEditor)"
proof -
  have q: "key questionMark = ''?'' \<and> \<not> shiftKey questionMark \<and> \<not> isTyping questionMark"
    and s: "key shiftQuestionMark = ''?'' \<and> shiftKey shiftQuestionMark"
    and h: "\<not> showKeyboardHelp initialEditor"
    by (simp_all add: questionMark_def shiftQuestionMark_def isTyping_def initialEditor_def)
  from C10_help_toggle [of _ "\<lambda>g. g" questionMark initialEditor, OF refl] q h
  have a: "showKeyboardHelp (onKeyDown (\<lambda>g. g) questionMark initialEditor)" by blast
  from C10_help_toggle [of _ "\<lambda>g. g" shiftQuestionMark initialEditor, OF refl] s h
  have b: "\<not> showKeyboardHelp (onKeyDown (\<lambda>g. g) shiftQuestionMark initialEditor)" by blast
  from q s h a b show ?thesis by blast
qed

section \<open>The node-id counter\<close>

text \<open>The decimal form is injective.\<close>

lemma toString_decode:
  "foldl (\<lambda>a c. 10 * a + (of_char c - 48)) (0::nat) (toString n) = n"
proof (induction n rule: toString.induct)
  case (1 n)
  show ?case
  proof (cases "n < 10")
    case True
    then show ?thesis by (simp add: toString.simps [of n])
  next
    case False
    with 1 have IH: "foldl (\<lambda>a c. 10 * a + (of_char c - 48)) (0::nat) (toString (n div 10)) = n div 10"
      by simp
    have "(48 + n mod 10) mod 256 = 48 + n mod 10"
      by (rule mod_less) (simp add: less_le_trans [OF add_strict_left_mono [OF mod_less_divisor]])
    with False IH show ?thesis
      by (simp add: toString.simps [of n])
  qed
qed

lemma toString_inj: "toString m = toString n \<Longrightarrow> m = n"
  by (metis toString_decode)

lemma setState_cases:
  "setState stringify m n h = h \<or>
   (\<exists>nh. (nh = history h \<or> nh = take (currentIndex h + 1) (history h)) \<and>
      nh ! currentIndex h = state h \<and>
      (currentIndex h < length (history h) - 1 \<longrightarrow> nh = take (currentIndex h + 1) (history h)) \<and>
      (history (setState stringify m n h) = nh @ [actualNewState n (state h)] \<or>
       history (setState stringify m n h) = tl (nh @ [actualNewState n (state h)])))"
proof -
  have cur: "(if currentIndex h < length (history h) - 1
         then take (currentIndex h + 1) (history h) else history h) ! currentIndex h = state h"
    by (simp add: state_def)
  show ?thesis
    unfolding setState_def Let_def cur
    by (auto simp: state_def)
qed

lemma list_all_tl: "list_all P xs \<Longrightarrow> list_all P (tl xs)"
  by (cases xs) simp_all

lemma setState_list_all:
  assumes "list_all P (history h)" and "P (actualNewState n (state h))"
  shows "list_all P (history (setState stringify m n h))"
proof -
  from setState_cases [of stringify m n h] consider
      "setState stringify m n h = h"
    | nh where "nh = history h \<or> nh = take (currentIndex h + 1) (history h)"
        "history (setState stringify m n h) = nh @ [actualNewState n (state h)] \<or>
         history (setState stringify m n h) = tl (nh @ [actualNewState n (state h)])"
    by blast
  then show ?thesis
  proof cases
    case 1
    with assms(1) show ?thesis by simp
  next
    case 2
    from 2(1) assms(1) have "list_all P nh"
      by (auto simp: list_all_iff dest: in_set_takeD)
    with assms(2) have a: "list_all P (nh @ [actualNewState n (state h)])" by simp
    then have "list_all P (tl (nh @ [actualNewState n (state h)]))" by (rule list_all_tl)
    with a 2(2) show ?thesis by (elim disjE) simp_all
  qed
qed

lemma setState_sorted:
  assumes "hook_inv m h" and "sorted (map c (history h))"
    and "c (state h) \<le> c (actualNewState n (state h))"
  shows "sorted (map c (history (setState stringify m n h)))"
proof -
  from assms(1) have idx: "currentIndex h < length (history h)" by (simp add: hook_inv_def)
  from setState_cases [of stringify m n h] consider
      "setState stringify m n h = h"
    | nh where "nh = history h \<or> nh = take (currentIndex h + 1) (history h)"
        "currentIndex h < length (history h) - 1 \<longrightarrow> nh = take (currentIndex h + 1) (history h)"
        "history (setState stringify m n h) = nh @ [actualNewState n (state h)] \<or>
         history (setState stringify m n h) = tl (nh @ [actualNewState n (state h)])"
    by blast
  then show ?thesis
  proof cases
    case 1
    with assms(2) show ?thesis by simp
  next
    case 2
    from 2(1,2) idx have nh: "nh = take (Suc (currentIndex h)) (history h)"
      by (cases "currentIndex h < length (history h) - 1") auto
    have le: "c x \<le> c (state h)" if "x \<in> set nh" for x
    proof -
      from that nh obtain j where j: "j < Suc (currentIndex h)" "j < length (history h)"
          and x: "x = history h ! j"
        by (auto simp: in_set_conv_nth)
      from assms(2) j idx have "map c (history h) ! j \<le> map c (history h) ! currentIndex h"
        by (intro sorted_nth_mono) simp_all
      with j idx x show ?thesis by (simp add: state_def)
    qed
    from assms(2) nh have "sorted (map c nh)"
      by (simp add: take_map [symmetric] sorted_wrt_take)
    with le assms(3) have "sorted (map c (nh @ [actualNewState n (state h)]))"
      by (auto simp: sorted_append intro: order_trans)
    with 2(3) show ?thesis
      by (auto simp: map_tl intro: sorted_tl)
  qed
qed

lemma idsInv_updateEditorState:
  assumes "idsInv ed" and "freshIds (spread (editorState ed) u)"
    and "nodeIdCounter (editorState ed) \<le> nodeIdCounter (spread (editorState ed) u)"
  shows "idsInv (updateEditorState stringify u ed)"
  using assms
  by (simp add: idsInv_def updateEditorState_def editorState_def hook_inv_setState
      setState_list_all setState_sorted actualNewState_def)

lemma freshIds_spread_same:
  "upd_nodes u = None \<Longrightarrow> upd_nodeIdCounter u = None \<Longrightarrow> freshIds (spread g u) = freshIds g"
  by (simp add: freshIds_def spread_def)

lemma idsInv_state: "idsInv ed \<Longrightarrow> freshIds (editorState ed)"
  by (simp add: idsInv_def hook_inv_def editorState_def state_def list_all_length)

lemma newNode_fresh:
  assumes "freshIds (editorState ed)"
  shows "node_id (newNode type position r1 r2 ed) \<notin> set (map node_id (nodes (editorState ed)))"
proof
  assume "node_id (newNode type position r1 r2 ed) \<in> set (map node_id (nodes (editorState ed)))"
  then obtain n where n: "n \<in> set (nodes (editorState ed))"
      and e: "node_id n = toString (nodeIdCounter (editorState ed))"
    by (auto simp: newNode_def Let_def)
  from assms n obtain k where "k < nodeIdCounter (editorState ed)" "node_id n = toString k"
    by (auto simp: freshIds_def list_all_iff)
  with e show False by (auto dest: toString_inj)
qed

lemma idsInv_addNode:
  assumes "idsInv ed"
  shows "idsInv (addNode stringify type position r1 r2 ed)"
proof -
  from assms have f: "freshIds (editorState ed)" by (rule idsInv_state)
  from newNode_fresh [OF f, of type position r1 r2]
  have "freshIds (spread (editorState ed)
      \<lparr>upd_nodes = Some (nodes (editorState ed) @ [newNode type position r1 r2 ed]),
       upd_edges = None, upd_nodeIdCounter = Some (nodeIdCounter (editorState ed) + 1)\<rparr>)"
    using f
    by (auto simp: freshIds_def spread_def list_all_iff newNode_def Let_def lessThan_Suc)
  with assms show ?thesis
    unfolding addNode_def by (intro idsInv_updateEditorState) (simp_all add: spread_def)
qed

lemma idsInv_same: "hist ed' = hist ed \<Longrightarrow> timers ed' = timers ed \<Longrightarrow> idsInv ed' = idsInv ed"
  by (simp add: idsInv_def)

lemma idsInv_keep_nodes:
  assumes "idsInv ed" and "upd_nodes u = None" and "upd_nodeIdCounter u = None"
  shows "idsInv (updateEditorState stringify u ed)"
proof (rule idsInv_updateEditorState [OF assms(1)])
  from assms show "freshIds (spread (editorState ed) u)"
    by (simp add: freshIds_spread_same idsInv_state)
  from assms(2,3) show "nodeIdCounter (editorState ed) \<le> nodeIdCounter (spread (editorState ed) u)"
    by (simp add: spread_def)
qed

lemma idsInv_onConnect: "idsInv ed \<Longrightarrow> idsInv (onConnect stringify params now ed)"
  by (simp add: onConnect_def Let_def idsInv_keep_nodes)

lemma idsInv_deleteSelectedEdges: "idsInv ed \<Longrightarrow> idsInv (deleteSelectedEdges stringify ed)"
proof -
  assume a: "idsInv ed"
  have "idsInv ((updateEditorState stringify u ed)\<lparr>selectedEdges := []\<rparr>) =
      idsInv (updateEditorState stringify u ed)" for u
    by (rule idsInv_same) simp_all
  with a show ?thesis
    by (simp add: deleteSelectedEdges_def idsInv_keep_nodes)
qed

lemma idsInv_deleteSelectedNodes:
  assumes "idsInv ed"
  shows "idsInv (deleteSelectedNodes stringify ed)"
proof (cases "deleteSelectedNodesUpdates ed")
  case None
  with assms show ?thesis by (simp add: deleteSelectedNodes_def)
next
  case (Some u)
  from assms have f: "freshIds (editorState ed)" by (rule idsInv_state)
  define ids where "ids = selectedNodeIds ed"
  from Some have
    u: "u = \<lparr>upd_nodes = Some (filter (\<lambda>n. node_id n \<notin> set ids) (nodes (editorState ed))),
             upd_edges = Some (filter (\<lambda>e. edge_source e \<notin> set ids \<and> edge_target e \<notin> set ids)
                                 (edges (editorState ed))),
             upd_nodeIdCounter = None\<rparr>"
    by (auto simp: deleteSelectedNodesUpdates_def ids_def selectedNodeIds_def Let_def
        split: if_splits)
  from f have "freshIds (spread (editorState ed) u)"
    by (auto simp: u freshIds_def spread_def list_all_iff distinct_map_filter)
  with assms Some show ?thesis
    unfolding deleteSelectedNodes_def
    by (simp add: idsInv_updateEditorState u spread_def)
qed

lemma idsInv_editorUndo: "idsInv ed \<Longrightarrow> editorUndo ed = (b, ed') \<Longrightarrow> idsInv ed'"
  by (auto simp: editorUndo_def undo_def idsInv_def hook_inv_def split: if_splits)

lemma idsInv_editorRedo: "idsInv ed \<Longrightarrow> editorRedo ed = (b, ed') \<Longrightarrow> idsInv ed'"
  by (auto simp: editorRedo_def redo_def idsInv_def hook_inv_def split: if_splits)

lemma idsInv_showActionFeedback [simp]: "idsInv (showActionFeedback m ed) = idsInv ed"
  by (rule idsInv_same) (simp_all add: showActionFeedback_def)

lemma idsInv_clearSelection [simp]: "idsInv (clearSelection ed) = idsInv ed"
  by (rule idsInv_same) (simp_all add: clearSelection_def)

lemma idsInv_help [simp]: "idsInv (ed\<lparr>showKeyboardHelp := b\<rparr>) = idsInv ed"
  by (rule idsInv_same) simp_all

lemma idsInv_onKeyDown:
  assumes "idsInv ed"
  shows "idsInv (onKeyDown stringify event ed)"
proof -
  have u: "idsInv (case editorUndo ed of (success, ed') \<Rightarrow>
        if success then showActionFeedback m ed' else ed')" for m
    using assms by (cases "editorUndo ed") (auto dest: idsInv_editorUndo)
  have r: "idsInv (case editorRedo ed of (success, ed') \<Rightarrow>
        if success then showActionFeedback m ed' else ed')" for m
    using assms by (cases "editorRedo ed") (auto dest: idsInv_editorRedo)
  from assms show ?thesis
    unfolding onKeyDown_def
    by (simp add: u r Let_def idsInv_deleteSelectedEdges idsInv_deleteSelectedNodes)
qed

lemma idsInv_handleEdgesChange:
  "idsInv ed \<Longrightarrow> idsInv (handleEdgesChange f changes ed)"
  by (simp add: handleEdgesChange_def Let_def idsInv_def)

lemma idsInv_saveEdges: "idsInv ed \<Longrightarrow> idsInv (saveEdges stringify ed)"
proof -
  assume a: "idsInv ed"
  have "idsInv ((updateEditorState stringify u ed)\<lparr>isSyncingState := False\<rparr>) =
      idsInv (updateEditorState stringify u ed)" for u
    by (rule idsInv_same) simp_all
  with a show ?thesis
    by (simp add: saveEdges_def idsInv_keep_nodes)
qed

lemma idsInv_fireTimer:
  assumes "idsInv ed"
  shows "idsInv (fireTimer stringify ed)"
proof (cases "timers ed")
  case Nil
  with assms show ?thesis by (simp add: fireTimer_def)
next
  case (Cons t ts)
  from assms Cons have nt: "t \<noteq> SaveNodes" and ts: "SaveNodes \<notin> set ts"
    by (auto simp: idsInv_def)
  from assms ts have i: "idsInv (ed\<lparr>timers := ts\<rparr>)" by (simp add: idsInv_def)
  show ?thesis
  proof (cases t)
    case ResetApplying
    with assms Cons ts show ?thesis
      by (simp add: fireTimer_def idsInv_def resetApplying_def hook_inv_def)
  next
    case SaveNodes
    with nt show ?thesis by simp
  next
    case SaveEdges
    with Cons i show ?thesis by (simp add: fireTimer_def idsInv_saveEdges)
  qed
qed

lemma freshIds_initialState: "freshIds initialState"
proof -
  have t: "toString 1 = ''1''" "toString 2 = ''2''" "toString 3 = ''3''"
    by (simp_all add: toString.simps digit_chars)
  have "toString 1 \<in> toString ` {..<4}" "toString 2 \<in> toString ` {..<4}"
    "toString 3 \<in> toString ` {..<4}"
    by (rule imageI, simp)+
  then have m: "''1'' \<in> toString ` {..<4}" "''2'' \<in> toString ` {..<4}" "''3'' \<in> toString ` {..<4}"
    by (simp_all only: t)
  have d: "distinct (map node_id (nodes initialState))"
    by (simp add: initialState_def initialNodes_def)
  have a: "list_all (\<lambda>n. node_id n \<in> toString ` {..<nodeIdCounter initialState}) (nodes initialState)"
    using m by (simp add: initialState_def initialNodes_def del: image_eqI)
  from d a show ?thesis
    unfolding freshIds_def by (rule conjI)
qed

lemma idsInv_initialEditor: "idsInv initialEditor"
  by (simp add: idsInv_def initialEditor_def hook_inv_def useHistory_def freshIds_initialState)

lemma idsInv_clearHistory: "idsInv ed \<Longrightarrow> idsInv (ed\<lparr>hist := clearHistory initialState (hist ed)\<rparr>)"
  by (simp add: idsInv_def clearHistory_def hook_inv_def freshIds_initialState)

lemma idsInv_syncEffect [simp]: "idsInv (syncEffect before ed) = idsInv ed"
  by (rule idsInv_same) (simp_all add: syncEffect_def)

lemma idsInv_handler:
  assumes "idsInv ed" and "noNodesChange ev"
  shows "idsInv (handler lib ev ed)"
proof (cases ev)
  case (AddNode t p r1 r2)
  with assms show ?thesis by (simp add: idsInv_addNode)
next
  case (Connect c n)
  with assms show ?thesis by (simp add: idsInv_onConnect)
next
  case (SelectionChange sel)
  with assms show ?thesis by (simp add: idsInv_def onSelectionChange_def)
next
  case (KeyDown e)
  with assms show ?thesis by (simp add: idsInv_onKeyDown)
next
  case (NodesChange cs)
  with assms show ?thesis by simp
next
  case (EdgesChange cs)
  with assms show ?thesis by (simp add: idsInv_handleEdgesChange)
next
  case ClickUndo
  with assms show ?thesis
    by (cases "editorUndo ed") (auto dest: idsInv_editorUndo)
next
  case ClickRedo
  with assms show ?thesis
    by (cases "editorRedo ed") (auto dest: idsInv_editorRedo)
next
  case ClickClearHistory
  with assms show ?thesis by (simp add: idsInv_clearHistory)
next
  case ClickDeleteEdges
  with assms show ?thesis by (simp add: idsInv_deleteSelectedEdges)
next
  case ClickHelp
  with assms show ?thesis by simp
next
  case CloseHelp
  with assms show ?thesis by simp
next
  case TimerFires
  with assms show ?thesis by (simp add: idsInv_fireTimer)
qed

lemma idsInv_dispatch: "idsInv ed \<Longrightarrow> noNodesChange ev \<Longrightarrow> idsInv (dispatch lib ev ed)"
  by (simp add: dispatch_def idsInv_handler)

lemma idsInv_runEvents:
  "idsInv ed \<Longrightarrow> list_all noNodesChange evs \<Longrightarrow> idsInv (runEvents lib ed evs)"
  by (induction evs arbitrary: ed) (simp_all add: idsInv_dispatch)

lemma setState_unchanged:
  assumes "isApplyingHistory h \<or> stringify (actualNewState n (state h)) = stringify (state h)"
  shows "setState stringify m n h = h"
proof -
  have "(if currentIndex h < length (history h) - 1
         then take (currentIndex h + 1) (history h) else history h) ! currentIndex h = state h"
    by (simp add: state_def)
  with assms show ?thesis
    unfolding setState_def Let_def by auto
qed

lemma setState_same_or_state:
  assumes "hook_inv m h"
  shows "setState stringify m n h = h \<or>
         state (setState stringify m n h) = actualNewState n (state h)"
proof (cases "isApplyingHistory h \<or> stringify (actualNewState n (state h)) = stringify (state h)")
  case True
  then show ?thesis by (simp add: setState_unchanged)
next
  case False
  with assms have "state (setState stringify m n h) = actualNewState n (state h)"
    by (intro setState_changes) auto
  then show ?thesis ..
qed

lemma hist_addNode:
  "hist (addNode stringify type position r1 r2 ed) =
     setState stringify 100
       (Updater (\<lambda>p. p\<lparr>nodes := nodes (state (hist ed)) @ [newNode type position r1 r2 ed],
                         nodeIdCounter := nodeIdCounter (state (hist ed)) + 1\<rparr>))
       (hist ed)"
proof -
  have "spread p \<lparr>upd_nodes = Some ns, upd_edges = None, upd_nodeIdCounter = Some c\<rparr> =
      p\<lparr>nodes := ns, nodeIdCounter := c\<rparr>" for p ns c
    by (simp add: spread_def)
  then show ?thesis
    by (simp add: addNode_def updateEditorState_def editorState_def)
qed

text \<open>
  C1, as the code has it. The counter is a field of the snapshot that the history keeps,
  so undo and redo restore it with the nodes. In every session without a change of the
  library's nodes, every entry of the history has fresh ids (pairwise distinct, each the
  decimal form of a number below the entry's counter) and the counters never decrease
  along the history; \<open>addNode\<close> gives the new node the id of the current counter, which
  no node of the current snapshot has, and either leaves the history as it is or makes
  the snapshot with the new node appended and the counter increased by one current.
\<close>

theorem C1_ids_fresh_within_snapshots:
  assumes "list_all noNodesChange evs" and "ed = runEvents lib initialEditor evs"
    and "new = newNode type position r1 r2 ed"
    and "ed' = addNode (lib_stringify lib) type position r1 r2 ed"
  shows "list_all freshIds (history (hist ed)) \<and>
    sorted (map nodeIdCounter (history (hist ed))) \<and>
    node_id new = toString (nodeIdCounter (editorState ed)) \<and>
    node_id new \<notin> set (map node_id (nodes (editorState ed))) \<and>
    (hist ed' = hist ed \<or>
     nodes (editorState ed') = nodes (editorState ed) @ [new] \<and>
     nodeIdCounter (editorState ed') = nodeIdCounter (editorState ed) + 1 \<and>
     edges (editorState ed') = edges (editorState ed))"
proof -
  from assms(1,2) have i: "idsInv ed"
    by (simp add: idsInv_runEvents idsInv_initialEditor)
  then have f: "freshIds (editorState ed)" by (rule idsInv_state)
  from i have h: "hook_inv 100 (hist ed)" by (simp add: idsInv_def)
  have id: "node_id new = toString (nodeIdCounter (editorState ed))"
    by (simp add: assms(3) newNode_def Let_def)
  from newNode_fresh [OF f] have nin: "node_id new \<notin> set (map node_id (nodes (editorState ed)))"
    by (simp add: assms(3))
  define n :: "graph_state new_state" where "n = Updater (\<lambda>p. p\<lparr>nodes := nodes (state (hist ed)) @ [new],
      nodeIdCounter := nodeIdCounter (state (hist ed)) + 1\<rparr>)"
  have ed': "hist ed' = setState (lib_stringify lib) 100 n (hist ed)"
    by (simp only: assms(3,4) hist_addNode n_def)
  have a: "actualNewState n (state (hist ed)) =
      (state (hist ed))\<lparr>nodes := nodes (state (hist ed)) @ [new],
        nodeIdCounter := nodeIdCounter (state (hist ed)) + 1\<rparr>"
    by (simp add: n_def actualNewState_def)
  from setState_same_or_state [OF h, of "lib_stringify lib" n]
  have "hist ed' = hist ed \<or> state (hist ed') =
      (state (hist ed))\<lparr>nodes := nodes (state (hist ed)) @ [new],
        nodeIdCounter := nodeIdCounter (state (hist ed)) + 1\<rparr>"
    by (simp only: ed' a)
  then have "hist ed' = hist ed \<or>
     nodes (editorState ed') = nodes (editorState ed) @ [new] \<and>
     nodeIdCounter (editorState ed') = nodeIdCounter (editorState ed) + 1 \<and>
     edges (editorState ed') = edges (editorState ed)"
    unfolding editorState_def by (elim disjE) simp_all
  with i id nin show ?thesis by (simp add: idsInv_def)
qed

lemma counter_differ:
  "nodeIdCounter g \<noteq> c \<Longrightarrow> g \<noteq> g\<lparr>nodes := ns, nodeIdCounter := c\<rparr>"
  by (cases g) auto

lemma newNode_id_type:
  "node_id (newNode type position r1 r2 ed) = toString (nodeIdCounter (state (hist ed)))"
  "node_type (newNode type position r1 r2 ed) = type"
  by (simp_all add: newNode_def editorState_def Let_def)

lemma addNode_at_tip:
  assumes h: "hist ed = \<lparr>history = hs, currentIndex = i, isApplyingHistory = False\<rparr>"
    and tip: "Suc i = length hs" and cap: "length hs < 100"
  shows "hist (addNode (\<lambda>g. g) type position r1 r2 ed) =
    \<lparr>history = hs @ [(hs ! i)\<lparr>nodes := nodes (hs ! i) @ [newNode type position r1 r2 ed],
                             nodeIdCounter := nodeIdCounter (hs ! i) + 1\<rparr>],
     currentIndex = Suc i, isApplyingHistory = False\<rparr>"
proof -
  define n :: "graph_state new_state" where
    "n = Updater (\<lambda>p. p\<lparr>nodes := nodes (state (hist ed)) @ [newNode type position r1 r2 ed],
        nodeIdCounter := nodeIdCounter (state (hist ed)) + 1\<rparr>)"
  have st: "state (hist ed) = hs ! i" by (simp add: h state_def)
  have a: "actualNewState n (state (hist ed)) =
      (hs ! i)\<lparr>nodes := nodes (hs ! i) @ [newNode type position r1 r2 ed],
               nodeIdCounter := nodeIdCounter (hs ! i) + 1\<rparr>"
    by (simp add: n_def actualNewState_def st)
  have d: "state (hist ed) \<noteq> actualNewState n (state (hist ed))"
    unfolding a unfolding st by (rule counter_differ) simp
  have "setState (\<lambda>g. g) 100 n (hist ed) =
      (hist ed)\<lparr>history := history (hist ed) @ [actualNewState n (state (hist ed))],
                currentIndex := length (history (hist ed))\<rparr>"
  proof (rule setState_push)
    show "\<not> isApplyingHistory (hist ed)" by (simp add: h)
    from tip show "currentIndex (hist ed) = length (history (hist ed)) - 1" by (simp add: h)
    from d show "state (hist ed) \<noteq> actualNewState n (state (hist ed))" .
    from cap show "length (history (hist ed)) < 100" by (simp add: h)
  qed
  then have "setState (\<lambda>g. g) 100 n (hist ed) =
      \<lparr>history = hs @ [(hs ! i)\<lparr>nodes := nodes (hs ! i) @ [newNode type position r1 r2 ed],
                             nodeIdCounter := nodeIdCounter (hs ! i) + 1\<rparr>],
     currentIndex = Suc i, isApplyingHistory = False\<rparr>"
    unfolding a using tip by (simp add: h)
  then show ?thesis
    by (simp only: hist_addNode n_def [symmetric])
qed

lemma addNode_below_tip:
  assumes h: "hist ed = \<lparr>history = hs, currentIndex = i, isApplyingHistory = False\<rparr>"
    and below: "Suc i < length hs" and cap: "length hs \<le> 100"
  shows "hist (addNode (\<lambda>g. g) type position r1 r2 ed) =
    \<lparr>history = take (Suc i) hs @
        [(hs ! i)\<lparr>nodes := nodes (hs ! i) @ [newNode type position r1 r2 ed],
                  nodeIdCounter := nodeIdCounter (hs ! i) + 1\<rparr>],
     currentIndex = Suc i, isApplyingHistory = False\<rparr>"
proof -
  define n :: "graph_state new_state" where
    "n = Updater (\<lambda>p. p\<lparr>nodes := nodes (state (hist ed)) @ [newNode type position r1 r2 ed],
        nodeIdCounter := nodeIdCounter (state (hist ed)) + 1\<rparr>)"
  have st: "state (hist ed) = hs ! i" by (simp add: h state_def)
  have a: "actualNewState n (state (hist ed)) =
      (hs ! i)\<lparr>nodes := nodes (hs ! i) @ [newNode type position r1 r2 ed],
               nodeIdCounter := nodeIdCounter (hs ! i) + 1\<rparr>"
    by (simp add: n_def actualNewState_def st)
  have d: "state (hist ed) \<noteq> actualNewState n (state (hist ed))"
    unfolding a unfolding st by (rule counter_differ) simp
  have "setState (\<lambda>g. g) 100 n (hist ed) =
      (hist ed)\<lparr>history := take (currentIndex (hist ed) + 1) (history (hist ed)) @
                   [actualNewState n (state (hist ed))],
                currentIndex := currentIndex (hist ed) + 1\<rparr>"
  proof (rule setState_branch)
    show "\<not> isApplyingHistory (hist ed)" by (simp add: h)
    from below show "currentIndex (hist ed) < length (history (hist ed)) - 1" by (simp add: h)
    from d show "state (hist ed) \<noteq> actualNewState n (state (hist ed))" .
    from cap show "length (history (hist ed)) \<le> 100" by (simp add: h)
  qed
  then have "setState (\<lambda>g. g) 100 n (hist ed) =
      \<lparr>history = take (Suc i) hs @
        [(hs ! i)\<lparr>nodes := nodes (hs ! i) @ [newNode type position r1 r2 ed],
                  nodeIdCounter := nodeIdCounter (hs ! i) + 1\<rparr>],
     currentIndex = Suc i, isApplyingHistory = False\<rparr>"
    unfolding a by (simp add: h)
  then show ?thesis
    by (simp only: hist_addNode n_def [symmetric])
qed

lemma timers_addNode: "timers (addNode stringify type position r1 r2 ed) = timers ed"
  by (simp add: addNode_def updateEditorState_def)

lemma fireTimer_reset:
  assumes "timers ed = ResetApplying # ts"
  shows "hist (fireTimer stringify ed) = (hist ed)\<lparr>isApplyingHistory := False\<rparr>"
    and "timers (fireTimer stringify ed) = ts"
  using assms by (simp_all add: fireTimer_def resetApplying_def)

lemma hist_initialEditor:
  "hist initialEditor = \<lparr>history = [initialState], currentIndex = 0, isApplyingHistory = False\<rparr>"
  by (simp add: initialEditor_def useHistory_def)

lemma initialState_fields:
  "nodes initialState = initialNodes" "nodeIdCounter initialState = 4"
  "edges initialState = initialEdges"
  by (simp_all add: initialState_def)

lemma afterAdd_hist:
  "hist afterAdd =
     \<lparr>history = [initialState,
        initialState\<lparr>nodes := initialNodes @
            [newNode ''textNode'' (Some \<lparr>pos_x = 250, pos_y = 300\<rparr>) 0 0 initialEditor],
          nodeIdCounter := 5\<rparr>],
      currentIndex = 1, isApplyingHistory = False\<rparr>"
  and afterAdd_timers: "timers afterAdd = []"
proof -
  have "hist (addNode (\<lambda>g. g) ''textNode'' (Some \<lparr>pos_x = 250, pos_y = 300\<rparr>) 0 0 initialEditor) =
     \<lparr>history = [initialState] @ [([initialState] ! 0)\<lparr>nodes := nodes ([initialState] ! 0) @
            [newNode ''textNode'' (Some \<lparr>pos_x = 250, pos_y = 300\<rparr>) 0 0 initialEditor],
          nodeIdCounter := nodeIdCounter ([initialState] ! 0) + 1\<rparr>],
      currentIndex = Suc 0, isApplyingHistory = False\<rparr>"
    by (rule addNode_at_tip [OF hist_initialEditor]) simp_all
  then show "hist afterAdd =
     \<lparr>history = [initialState,
        initialState\<lparr>nodes := initialNodes @
            [newNode ''textNode'' (Some \<lparr>pos_x = 250, pos_y = 300\<rparr>) 0 0 initialEditor],
          nodeIdCounter := 5\<rparr>],
      currentIndex = 1, isApplyingHistory = False\<rparr>"
    by (simp add: afterAdd_def addTextNode_def hist_dispatch exampleLibrary_def
        initialState_fields)
  show "timers afterAdd = []"
    by (simp add: afterAdd_def addTextNode_def timers_dispatch timers_addNode initialEditor_def)
qed

lemma afterAddUndo_hist:
  "hist afterAddUndo =
     \<lparr>history = [initialState,
        initialState\<lparr>nodes := initialNodes @
            [newNode ''textNode'' (Some \<lparr>pos_x = 250, pos_y = 300\<rparr>) 0 0 initialEditor],
          nodeIdCounter := 5\<rparr>],
      currentIndex = 0, isApplyingHistory = False\<rparr>"
proof -
  define u where "u = dispatch exampleLibrary ClickUndo afterAdd"
  have ru: "afterAddUndo = dispatch exampleLibrary TimerFires u"
    by (simp add: afterAddUndo_def u_def afterAdd_def)
  have h1: "hist afterAdd = \<lparr>history = [initialState,
        initialState\<lparr>nodes := initialNodes @
            [newNode ''textNode'' (Some \<lparr>pos_x = 250, pos_y = 300\<rparr>) 0 0 initialEditor],
          nodeIdCounter := 5\<rparr>],
      currentIndex = Suc 0, isApplyingHistory = False\<rparr>"
    by (simp add: afterAdd_hist)
  have hu: "hist u = \<lparr>history = [initialState,
        initialState\<lparr>nodes := initialNodes @
            [newNode ''textNode'' (Some \<lparr>pos_x = 250, pos_y = 300\<rparr>) 0 0 initialEditor],
          nodeIdCounter := 5\<rparr>],
      currentIndex = 0, isApplyingHistory = True\<rparr>"
    by (simp add: u_def hist_dispatch editorUndo_step(1) [OF h1])
  have tu: "timers u = [ResetApplying]"
    by (simp add: u_def timers_dispatch editorUndo_step(2) [OF h1] afterAdd_timers)
  show ?thesis
    by (simp add: ru hist_dispatch fireTimer_reset(1) [OF tu] hu)
qed

lemma afterReAdd_hist:
  "hist afterReAdd =
     \<lparr>history = [initialState,
        initialState\<lparr>nodes := initialNodes @ [newNode ''llmNode'' None (1 / 4) (1 / 2) afterAddUndo],
          nodeIdCounter := 5\<rparr>],
      currentIndex = 1, isApplyingHistory = False\<rparr>"
proof -
  have r: "afterReAdd = dispatch exampleLibrary addLLMNode afterAddUndo"
    by (simp add: afterReAdd_def afterAddUndo_def)
  have h: "hist afterAddUndo = \<lparr>history = [initialState,
        initialState\<lparr>nodes := initialNodes @
            [newNode ''textNode'' (Some \<lparr>pos_x = 250, pos_y = 300\<rparr>) 0 0 initialEditor],
          nodeIdCounter := 5\<rparr>],
      currentIndex = 0, isApplyingHistory = False\<rparr>"
    by (rule afterAddUndo_hist)
  have "hist (addNode (\<lambda>g. g) ''llmNode'' None (1 / 4) (1 / 2) afterAddUndo) =
     \<lparr>history = [initialState,
        initialState\<lparr>nodes := initialNodes @ [newNode ''llmNode'' None (1 / 4) (1 / 2) afterAddUndo],
          nodeIdCounter := 5\<rparr>],
      currentIndex = 1, isApplyingHistory = False\<rparr>"
    by (simp add: addNode_below_tip [OF h] initialState_fields)
  then show ?thesis
    by (simp add: r addLLMNode_def hist_dispatch exampleLibrary_def)
qed

lemma initial_ids: "map node_id initialNodes = [''1'', ''2'', ''3'']"
  and initial_types: "map node_type initialNodes = [''inputNode'', ''textNode'', ''outputNode'']"
  by (simp_all add: initialNodes_def)

lemma editorState_afterAdd:
  "editorState afterAdd =
     initialState\<lparr>nodes := initialNodes @
         [newNode ''textNode'' (Some \<lparr>pos_x = 250, pos_y = 300\<rparr>) 0 0 initialEditor],
       nodeIdCounter := 5\<rparr>"
  by (simp add: editorState_def state_def afterAdd_hist)

lemma editorState_afterAddUndo: "editorState afterAddUndo = initialState"
  by (simp add: editorState_def state_def afterAddUndo_hist)

lemma editorState_afterReAdd:
  "editorState afterReAdd =
     initialState\<lparr>nodes := initialNodes @ [newNode ''llmNode'' None (1 / 4) (1 / 2) afterAddUndo],
       nodeIdCounter := 5\<rparr>"
  by (simp add: editorState_def state_def afterReAdd_hist)

lemma newNode_first:
  "node_id (newNode ''textNode'' (Some \<lparr>pos_x = 250, pos_y = 300\<rparr>) 0 0 initialEditor) = ''4''"
proof -
  have "state (hist initialEditor) = initialState"
    by (simp add: hist_initialEditor state_def)
  then show ?thesis
    by (simp add: newNode_id_type initialState_fields toString_4)
qed

lemma newNode_second:
  "node_id (newNode ''llmNode'' None (1 / 4) (1 / 2) afterAddUndo) = ''4''"
proof -
  have "state (hist afterAddUndo) = initialState"
    by (simp add: afterAddUndo_hist state_def)
  then show ?thesis
    by (simp add: newNode_id_type initialState_fields toString_4)
qed

text \<open>
  The claim as worded fails across an undo: the first addition makes node 4 and the
  counter 5, undo brings the counter back to 4, and the next addition makes another
  node 4.
\<close>

theorem C1_id_reused_after_undo_counterexample:
  "map node_id (nodes (editorState afterAdd)) = [''1'', ''2'', ''3'', ''4''] \<and>
   map node_type (nodes (editorState afterAdd)) =
     [''inputNode'', ''textNode'', ''outputNode'', ''textNode''] \<and>
   nodeIdCounter (editorState afterAdd) = 5 \<and>
   nodeIdCounter (editorState afterAddUndo) = 4 \<and>
   map node_id (nodes (editorState afterReAdd)) = [''1'', ''2'', ''3'', ''4''] \<and>
   map node_type (nodes (editorState afterReAdd)) =
     [''inputNode'', ''textNode'', ''outputNode'', ''llmNode'']"
  by (simp add: editorState_afterAdd editorState_afterAddUndo editorState_afterReAdd
      initial_ids initial_types newNode_first newNode_second newNode_id_type(2)
      initialState_fields)

theorem C1_ids_fresh_within_snapshots_witness:
  "list_all noNodesChange [addTextNode, ClickUndo, TimerFires] \<and>
   list_all freshIds (history (hist afterAddUndo)) \<and>
   node_id (newNode ''llmNode'' None (1 / 4) (1 / 2) afterAddUndo) = ''4'' \<and>
   ''4'' \<notin> set (map node_id (nodes (editorState afterAddUndo))) \<and>
   nodes (editorState afterReAdd) =
     nodes (editorState afterAddUndo) @ [newNode ''llmNode'' None (1 / 4) (1 / 2) afterAddUndo] \<and>
   nodeIdCounter (editorState afterReAdd) = nodeIdCounter (editorState afterAddUndo) + 1"
proof -
  have ev: "list_all noNodesChange [addTextNode, ClickUndo, TimerFires]"
    by (simp add: addTextNode_def)
  from C1_ids_fresh_within_snapshots [OF ev afterAddUndo_def refl refl,
      of "''llmNode''" None "1 / 4" "1 / 2"]
  have "list_all freshIds (history (hist afterAddUndo)) \<and>
    node_id (newNode ''llmNode'' None (1 / 4) (1 / 2) afterAddUndo) \<notin>
      set (map node_id (nodes (editorState afterAddUndo)))"
    by blast
  with ev show ?thesis
    by (simp add: newNode_second editorState_afterReAdd)
       (simp add: editorState_afterAddUndo initialState_fields)
qed

section \<open>A drag gesture and the history\<close>

text \<open>
  The handlers of the library's node changes, step by step: a frame without a release only
  updates the library's nodes; the release leaves one deferred save; the save calls the
  hook's \<open>setState\<close> with the library's nodes.
\<close>

lemma dispatch_same_hist:
  "hist (handler lib ev ed) = hist ed \<Longrightarrow> dispatch lib ev ed = handler lib ev ed"
  by (simp add: dispatch_def syncEffect_def editorState_def)

lemma frame_step:
  assumes "\<not> hasPositionChange f"
  shows "dispatch lib (NodesChange f) ed =
    ed\<lparr>isSyncingState := False, reactFlowNodes := lib_onNodesChange lib f (reactFlowNodes ed)\<rparr>"
proof -
  from assms have h: "handler lib (NodesChange f) ed =
      ed\<lparr>isSyncingState := False, reactFlowNodes := lib_onNodesChange lib f (reactFlowNodes ed)\<rparr>"
    by (simp add: handleNodesChange_def Let_def)
  then have "hist (handler lib (NodesChange f) ed) = hist ed" by simp
  then have "dispatch lib (NodesChange f) ed = handler lib (NodesChange f) ed"
    by (rule dispatch_same_hist)
  with h show ?thesis by simp
qed

lemma frames_run:
  assumes "list_all (\<lambda>f. \<not> hasPositionChange f) frames"
  shows "hist (runEvents lib ed (map NodesChange frames)) = hist ed \<and>
    timers (runEvents lib ed (map NodesChange frames)) = timers ed \<and>
    reactFlowNodes (runEvents lib ed (map NodesChange frames)) =
      foldl (\<lambda>ns f. lib_onNodesChange lib f ns) (reactFlowNodes ed) frames"
  using assms
proof (induction frames arbitrary: ed)
  case Nil
  then show ?case by simp
next
  case (Cons f frames)
  from Cons.prems have f: "\<not> hasPositionChange f"
    and r: "list_all (\<lambda>f. \<not> hasPositionChange f) frames"
    by simp_all
  from Cons.IH [OF r, of "dispatch lib (NodesChange f) ed"] show ?case
    by (simp add: frame_step [OF f])
qed

lemma release_step:
  assumes "hasPositionChange release"
  shows "dispatch lib (NodesChange release) ed =
    ed\<lparr>isSyncingState := True,
       reactFlowNodes := lib_onNodesChange lib release (reactFlowNodes ed),
       timers := timers ed @ [SaveNodes]\<rparr>"
proof -
  from assms have h: "handler lib (NodesChange release) ed =
      ed\<lparr>isSyncingState := True,
       reactFlowNodes := lib_onNodesChange lib release (reactFlowNodes ed),
       timers := timers ed @ [SaveNodes]\<rparr>"
    by (simp add: handleNodesChange_def Let_def)
  then have "hist (handler lib (NodesChange release) ed) = hist ed" by simp
  then have "dispatch lib (NodesChange release) ed = handler lib (NodesChange release) ed"
    by (rule dispatch_same_hist)
  with h show ?thesis by simp
qed

lemma hist_saveNodes:
  "hist (saveNodes stringify ed) =
     setState stringify 100 (Updater (\<lambda>p. p\<lparr>nodes := reactFlowNodes ed\<rparr>)) (hist ed)"
proof -
  have "spread p \<lparr>upd_nodes = Some ns, upd_edges = None, upd_nodeIdCounter = None\<rparr> =
      p\<lparr>nodes := ns\<rparr>" for p ns
    by (simp add: spread_def)
  then show ?thesis
    by (simp add: saveNodes_def updateEditorState_def)
qed

lemma save_step:
  assumes "timers ed = [SaveNodes]"
  shows "hist (dispatch lib TimerFires ed) =
      setState (lib_stringify lib) 100 (Updater (\<lambda>p. p\<lparr>nodes := reactFlowNodes ed\<rparr>)) (hist ed)"
    and "timers (dispatch lib TimerFires ed) = []"
proof -
  have r: "reactFlowNodes (ed\<lparr>timers := []\<rparr>) = reactFlowNodes ed"
    and h: "hist (ed\<lparr>timers := []\<rparr>) = hist ed"
    by simp_all
  from assms show "hist (dispatch lib TimerFires ed) =
      setState (lib_stringify lib) 100 (Updater (\<lambda>p. p\<lparr>nodes := reactFlowNodes ed\<rparr>)) (hist ed)"
    by (simp add: hist_dispatch fireTimer_def hist_saveNodes)
  from assms show "timers (dispatch lib TimerFires ed) = []"
    by (simp add: timers_dispatch fireTimer_def saveNodes_def updateEditorState_def)
qed

lemma setState_size:
  "length (history (setState stringify m n h)) \<le> length (history h) + 1"
proof -
  have "length (take k xs @ [v]) \<le> length xs + 1" for k and xs :: "'a list" and v
    by simp
  then show ?thesis
    unfolding setState_def Let_def
    by (auto simp: le_Suc_eq min_def)
qed

lemma setState_appends:
  assumes "hook_inv m h" and "\<not> isApplyingHistory h"
    and "stringify (state h) \<noteq> stringify (actualNewState n (state h))"
  shows "history (setState stringify m n h) =
      (if m < currentIndex h + 2
       then tl (take (currentIndex h + 1) (history h) @ [actualNewState n (state h)])
       else take (currentIndex h + 1) (history h) @ [actualNewState n (state h)]) \<and>
    currentIndex (setState stringify m n h) = length (history (setState stringify m n h)) - 1"
proof -
  from assms(1) have idx: "currentIndex h < length (history h)" by (simp add: hook_inv_def)
  define T where "T = take (currentIndex h + 1) (history h)"
  define a where "a = actualNewState n (state h)"
  have nh: "(if currentIndex h < length (history h) - 1
         then take (currentIndex h + 1) (history h) else history h) = T"
    using idx by (auto simp: T_def)
  from idx have len: "length T = currentIndex h + 1"
    by (simp add: T_def)
  have cur: "T ! currentIndex h = state h"
    by (simp add: T_def state_def)
  have "setState stringify m n h =
      (if m < length (T @ [a])
       then h\<lparr>history := tl (T @ [a]), currentIndex := length (tl (T @ [a])) - 1\<rparr>
       else h\<lparr>history := T @ [a], currentIndex := length (T @ [a]) - 1\<rparr>)"
    unfolding setState_def Let_def nh cur a_def [symmetric]
    using assms(2,3) by (simp only: a_def [symmetric] if_False)
  then show ?thesis
    unfolding T_def [symmetric] a_def [symmetric]
    by (simp add: len del: tl_append2)
qed

lemma runEvents_append:
  "runEvents lib ed (evs @ evs') = runEvents lib (runEvents lib ed evs) evs'"
  by (induction evs arbitrary: ed) simp_all

lemma nodes_differ: "nodes g \<noteq> ns \<Longrightarrow> g \<noteq> g\<lparr>nodes := ns\<rparr>"
  by (cases g) auto

text \<open>A whole gesture: what it leaves in the history, the timers and the library's nodes.\<close>

lemma gesture_run:
  assumes frames: "list_all (\<lambda>f. \<not> hasPositionChange f) frames"
    and rel: "hasPositionChange release" and t: "timers ed = []"
    and inv: "hook_inv 100 (hist ed)"
    and final_def: "final = lib_onNodesChange lib release
      (foldl (\<lambda>ns f. lib_onNodesChange lib f ns) (reactFlowNodes ed) frames)"
    and ed'_def: "ed' = runEvents lib ed (map NodesChange frames @ [NodesChange release, TimerFires])"
  shows "hist ed' =
      setState (lib_stringify lib) 100 (Updater (\<lambda>p. p\<lparr>nodes := final\<rparr>)) (hist ed)"
    and "timers ed' = []" and "reactFlowNodes ed' = final"
proof -
  define dragged where "dragged = runEvents lib ed (map NodesChange frames)"
  define released where "released = dispatch lib (NodesChange release) dragged"
  from frames_run [OF frames, of lib ed]
  have d: "hist dragged = hist ed" "timers dragged = timers ed"
    "reactFlowNodes dragged = foldl (\<lambda>ns f. lib_onNodesChange lib f ns) (reactFlowNodes ed) frames"
    by (simp_all add: dragged_def)
  from d t have r: "hist released = hist ed" "timers released = [SaveNodes]"
    "reactFlowNodes released = final"
    by (simp_all add: released_def release_step [OF rel] final_def)
  have e: "ed' = dispatch lib TimerFires released"
    by (simp add: ed'_def runEvents_append dragged_def released_def)
  from save_step [OF r(2), of lib] r show h: "hist ed' =
      setState (lib_stringify lib) 100 (Updater (\<lambda>p. p\<lparr>nodes := final\<rparr>)) (hist ed)"
    and "timers ed' = []"
    by (simp_all add: e)
  have hr: "reactFlowNodes (handler lib TimerFires released) = final"
    using r by (simp add: fireTimer_def saveNodes_def updateEditorState_def)
  from inv have "setState (lib_stringify lib) 100 (Updater (\<lambda>p. p\<lparr>nodes := final\<rparr>)) (hist ed) = hist ed \<or>
      state (setState (lib_stringify lib) 100 (Updater (\<lambda>p. p\<lparr>nodes := final\<rparr>)) (hist ed)) =
      actualNewState (Updater (\<lambda>p. p\<lparr>nodes := final\<rparr>)) (state (hist ed))"
    by (rule setState_same_or_state)
  with h have "hist ed' = hist released \<or> nodes (state (hist ed')) = final"
    by (auto simp: r actualNewState_def)
  then show "reactFlowNodes ed' = final"
    unfolding e dispatch_def syncEffect_def editorState_def
    using hr by (auto simp: hist_dispatch [unfolded dispatch_def syncEffect_def editorState_def] e [symmetric])
qed

text \<open>
  C8, as the code has it. A gesture is a list of frames, none of which holds a position
  change with \<open>dragging\<close> false, followed by one report that does, and by the firing of
  the save it deferred; no timer is pending when the gesture starts. The frames and the
  release leave the history as it was, and the library's nodes at the release are the
  frames and the release applied in order. The save adds at most one entry. It adds
  exactly one, the current state with the library's nodes put in, which becomes the
  current entry, when the guard of the hook is clear and that candidate serialises
  differently from the current state; the entries after the current one are dropped and,
  beyond 100 entries, the oldest one too. When the guard is set, or the candidate
  serialises as the current state does, the gesture leaves no entry at all.
\<close>

theorem C8_drag_commits_at_most_once:
  assumes "list_all (\<lambda>f. \<not> hasPositionChange f) frames" and "hasPositionChange release"
    and "timers ed = []" and "hook_inv 100 (hist ed)"
    and "dragged = runEvents lib ed (map NodesChange frames)"
    and "released = dispatch lib (NodesChange release) dragged"
    and "ed' = dispatch lib TimerFires released"
    and "final = lib_onNodesChange lib release
      (foldl (\<lambda>ns f. lib_onNodesChange lib f ns) (reactFlowNodes ed) frames)"
    and "cand = (editorState ed)\<lparr>nodes := final\<rparr>"
  shows "hist dragged = hist ed \<and> hist released = hist ed \<and> reactFlowNodes released = final \<and>
    historySize (hist ed') \<le> historySize (hist ed) + 1 \<and>
    (\<not> isApplyingHistory (hist ed) \<and>
     lib_stringify lib (editorState ed) \<noteq> lib_stringify lib cand \<longrightarrow>
       history (hist ed') =
         (if 100 < currentIndex (hist ed) + 2
          then tl (take (currentIndex (hist ed) + 1) (history (hist ed)) @ [cand])
          else take (currentIndex (hist ed) + 1) (history (hist ed)) @ [cand]) \<and>
       currentIndex (hist ed') = historySize (hist ed') - 1 \<and>
       editorState ed' = cand \<and> nodes (editorState ed') = final) \<and>
    (isApplyingHistory (hist ed) \<or>
     lib_stringify lib cand = lib_stringify lib (editorState ed) \<longrightarrow> hist ed' = hist ed)"
proof -
  define n :: "graph_state new_state" where "n = Updater (\<lambda>p. p\<lparr>nodes := final\<rparr>)"
  have a: "actualNewState n (state (hist ed)) = cand"
    by (simp add: n_def actualNewState_def assms(9) editorState_def)
  from frames_run [OF assms(1), of lib ed]
  have d: "hist dragged = hist ed" "timers dragged = timers ed"
    "reactFlowNodes dragged = foldl (\<lambda>ns f. lib_onNodesChange lib f ns) (reactFlowNodes ed) frames"
    by (simp_all add: assms(5))
  from d assms(3) have r: "hist released = hist ed" "timers released = [SaveNodes]"
    "reactFlowNodes released = final"
    by (simp_all add: assms(6) release_step [OF assms(2)] assms(8))
  from save_step(1) [OF r(2), of lib] r
  have h: "hist ed' = setState (lib_stringify lib) 100 n (hist ed)"
    by (simp add: assms(7) n_def)
  have size: "historySize (hist ed') \<le> historySize (hist ed) + 1"
    using setState_size [of "lib_stringify lib" 100 n "hist ed"]
    by (simp add: h historySize_def)
  have push: "history (hist ed') =
         (if 100 < currentIndex (hist ed) + 2
          then tl (take (currentIndex (hist ed) + 1) (history (hist ed)) @ [cand])
          else take (currentIndex (hist ed) + 1) (history (hist ed)) @ [cand]) \<and>
       currentIndex (hist ed') = historySize (hist ed') - 1 \<and>
       editorState ed' = cand \<and> nodes (editorState ed') = final"
    if g: "\<not> isApplyingHistory (hist ed)"
      and ne: "lib_stringify lib (editorState ed) \<noteq> lib_stringify lib cand"
  proof -
    from ne have ne': "lib_stringify lib (state (hist ed)) \<noteq>
        lib_stringify lib (actualNewState n (state (hist ed)))"
      by (simp add: a editorState_def)
    from setState_appends [OF assms(4) g ne'] setState_changes [OF assms(4) g ne']
    show ?thesis
      by (simp add: h a historySize_def editorState_def assms(9))
  qed
  have same: "hist ed' = hist ed"
    if "isApplyingHistory (hist ed) \<or>
      lib_stringify lib cand = lib_stringify lib (editorState ed)"
  proof -
    from that have "isApplyingHistory (hist ed) \<or>
        lib_stringify lib (actualNewState n (state (hist ed))) = lib_stringify lib (state (hist ed))"
      by (simp add: a editorState_def)
    then show ?thesis
      unfolding h by (rule setState_unchanged)
  qed
  from d(1) r(1,3) size push same show ?thesis by blast
qed

lemma firstDrag_final:
  "applyNodeChanges [stopChange ''1'']
     (foldl (\<lambda>ns f. applyNodeChanges f ns) initialNodes firstDragFrames) = draggedNodes"
  by (simp add: applyNodeChanges_def applyNodeChange_def firstDragFrames_def moveChange_def
      stopChange_def initialNodes_def draggedNodes_def)

lemma secondDrag_final:
  "applyNodeChanges [stopChange ''1'']
     (foldl (\<lambda>ns f. applyNodeChanges f ns) draggedNodes secondDragFrames) = draggedNodes"
  by (simp add: applyNodeChanges_def applyNodeChange_def secondDragFrames_def moveChange_def
      stopChange_def draggedNodes_def)

lemma drag_frames:
  "list_all (\<lambda>f. \<not> hasPositionChange f) firstDragFrames"
  "list_all (\<lambda>f. \<not> hasPositionChange f) secondDragFrames"
  "hasPositionChange [stopChange ''1'']"
  by (simp_all add: firstDragFrames_def secondDragFrames_def hasPositionChange_def
      moveChange_def stopChange_def)

lemma exampleLibrary_fields:
  "lib_stringify exampleLibrary = (\<lambda>g. g)" "lib_onNodesChange exampleLibrary = applyNodeChanges"
  by (simp_all add: exampleLibrary_def)

lemma initialEditor_fields:
  "timers initialEditor = []" "reactFlowNodes initialEditor = initialNodes"
  "hook_inv 100 (hist initialEditor)"
  by (simp_all add: initialEditor_def hook_inv_def useHistory_def)

lemma initialNodes_dragged: "initialNodes \<noteq> draggedNodes"
  by (simp add: initialNodes_def draggedNodes_def)

lemma afterFirstDrag_fields:
  "hist afterFirstDrag =
     \<lparr>history = [initialState, initialState\<lparr>nodes := draggedNodes\<rparr>], currentIndex = 1,
      isApplyingHistory = False\<rparr>"
  "timers afterFirstDrag = []" "reactFlowNodes afterFirstDrag = draggedNodes"
proof -
  have f: "draggedNodes = lib_onNodesChange exampleLibrary [stopChange ''1'']
      (foldl (\<lambda>ns f. lib_onNodesChange exampleLibrary f ns) (reactFlowNodes initialEditor)
         firstDragFrames)"
    by (simp only: exampleLibrary_fields initialEditor_fields firstDrag_final)
  note g = gesture_run [OF drag_frames(1) drag_frames(3) initialEditor_fields(1)
      initialEditor_fields(3) f afterFirstDrag_def]
  from g(2) show "timers afterFirstDrag = []" .
  from g(3) show "reactFlowNodes afterFirstDrag = draggedNodes" .
  define n :: "graph_state new_state" where "n = Updater (\<lambda>p. p\<lparr>nodes := draggedNodes\<rparr>)"
  have st: "state (hist initialEditor) = initialState"
    by (simp add: hist_initialEditor state_def)
  have a: "actualNewState n initialState = initialState\<lparr>nodes := draggedNodes\<rparr>"
    by (simp add: n_def actualNewState_def)
  have d: "initialState \<noteq> initialState\<lparr>nodes := draggedNodes\<rparr>"
    by (rule nodes_differ) (simp add: initialState_fields initialNodes_dragged)
  have "setState (\<lambda>g. g) 100 n (hist initialEditor) =
      (hist initialEditor)\<lparr>history := history (hist initialEditor) @
         [actualNewState n (state (hist initialEditor))],
       currentIndex := length (history (hist initialEditor))\<rparr>"
    by (rule setState_push) (simp_all add: st a d, simp_all add: hist_initialEditor)
  with g(1) show "hist afterFirstDrag =
     \<lparr>history = [initialState, initialState\<lparr>nodes := draggedNodes\<rparr>], currentIndex = 1,
      isApplyingHistory = False\<rparr>"
    by (simp only: exampleLibrary_fields n_def [symmetric] st a) (simp add: hist_initialEditor)
qed

lemma afterSecondDrag_hist: "hist afterSecondDrag = hist afterFirstDrag"
proof -
  have f: "draggedNodes = lib_onNodesChange exampleLibrary [stopChange ''1'']
      (foldl (\<lambda>ns f. lib_onNodesChange exampleLibrary f ns) (reactFlowNodes afterFirstDrag)
         secondDragFrames)"
    by (simp only: exampleLibrary_fields afterFirstDrag_fields secondDrag_final)
  have i: "hook_inv 100 (hist afterFirstDrag)"
    by (simp add: afterFirstDrag_fields hook_inv_def)
  note g = gesture_run [OF drag_frames(2) drag_frames(3) afterFirstDrag_fields(2) i f
      afterSecondDrag_def]
  have st: "state (hist afterFirstDrag) = initialState\<lparr>nodes := draggedNodes\<rparr>"
    by (simp add: afterFirstDrag_fields state_def)
  have "setState (\<lambda>g. g) 100 (Updater (\<lambda>p. p\<lparr>nodes := draggedNodes\<rparr>)) (hist afterFirstDrag) =
      hist afterFirstDrag"
    by (rule setState_unchanged) (simp add: st actualNewState_def)
  with g(1) show ?thesis by (simp only: exampleLibrary_fields)
qed

theorem C8_returning_drag_counterexample:
  "list_all (\<lambda>f. \<not> hasPositionChange f) secondDragFrames \<and>
   hasPositionChange [stopChange ''1''] \<and>
   node_position (hd (reactFlowNodes (runEvents exampleLibrary afterFirstDrag
       [NodesChange [moveChange ''1'' 200 200]]))) = \<lparr>pos_x = 200, pos_y = 200\<rparr> \<and>
   historySize (hist afterFirstDrag) = 2 \<and>
   historySize (hist afterSecondDrag) = 2 \<and>
   hist afterSecondDrag = hist afterFirstDrag"
proof -
  have m: "\<not> hasPositionChange [moveChange ''1'' 200 200]"
    by (simp add: hasPositionChange_def moveChange_def)
  have "node_position (hd (reactFlowNodes (runEvents exampleLibrary afterFirstDrag
       [NodesChange [moveChange ''1'' 200 200]]))) = \<lparr>pos_x = 200, pos_y = 200\<rparr>"
    by (simp only: runEvents.simps frame_step [OF m])
      (simp add: exampleLibrary_fields afterFirstDrag_fields
        applyNodeChanges_def applyNodeChange_def moveChange_def draggedNodes_def)
  with drag_frames show ?thesis
    by (simp add: afterSecondDrag_hist) (simp add: afterFirstDrag_fields historySize_def)
qed

theorem C8_drag_commits_at_most_once_witness:
  "list_all (\<lambda>f. \<not> hasPositionChange f) firstDragFrames \<and>
   hasPositionChange [stopChange ''1''] \<and>
   hist (runEvents exampleLibrary initialEditor (map NodesChange firstDragFrames)) =
     hist initialEditor \<and>
   historySize (hist initialEditor) = 1 \<and>
   historySize (hist afterFirstDrag) = 2 \<and>
   currentIndex (hist afterFirstDrag) = 1 \<and>
   nodes (editorState afterFirstDrag) = draggedNodes \<and>
   node_position (hd (nodes (editorState afterFirstDrag))) = \<lparr>pos_x = 150, pos_y = 120\<rparr>"
proof -
  have e: "afterFirstDrag = dispatch exampleLibrary TimerFires
      (dispatch exampleLibrary (NodesChange [stopChange ''1''])
        (runEvents exampleLibrary initialEditor (map NodesChange firstDragFrames)))"
    by (simp add: afterFirstDrag_def runEvents_append)
  have f: "draggedNodes = lib_onNodesChange exampleLibrary [stopChange ''1'']
      (foldl (\<lambda>ns f. lib_onNodesChange exampleLibrary f ns) (reactFlowNodes initialEditor)
         firstDragFrames)"
    by (simp only: exampleLibrary_fields initialEditor_fields firstDrag_final)
  have g: "\<not> isApplyingHistory (hist initialEditor)"
    and s: "editorState initialEditor = initialState"
    and z: "currentIndex (hist initialEditor) = 0" "history (hist initialEditor) = [initialState]"
    by (simp_all add: hist_initialEditor editorState_def state_def)
  have d: "lib_stringify exampleLibrary (editorState initialEditor) \<noteq>
      lib_stringify exampleLibrary ((editorState initialEditor)\<lparr>nodes := draggedNodes\<rparr>)"
    unfolding exampleLibrary_fields s
    by (rule nodes_differ) (simp add: initialState_fields initialNodes_dragged)
  from C8_drag_commits_at_most_once [OF drag_frames(1) drag_frames(3) initialEditor_fields(1)
      initialEditor_fields(3) refl refl e f refl] g d
  have "hist (runEvents exampleLibrary initialEditor (map NodesChange firstDragFrames)) =
      hist initialEditor \<and>
    history (hist afterFirstDrag) = [initialState, initialState\<lparr>nodes := draggedNodes\<rparr>] \<and>
    currentIndex (hist afterFirstDrag) = historySize (hist afterFirstDrag) - 1 \<and>
    nodes (editorState afterFirstDrag) = draggedNodes"
    by (simp add: z s)
  with drag_frames show ?thesis
    by (simp add: historySize_def hist_initialEditor) (simp add: draggedNodes_def)
qed

end
